theory Spec2Isabelle
  imports Main
begin

section \<open>JavaScript strings\<close>

text \<open>
  A JavaScript string is a sequence of UTF-16 code units, and \<open>length\<close> counts code units.
  The model keeps that: a string is the list of its code units, as natural numbers. ASCII
  literals of the source are written \<open>asc ''...''\<close>; the fixed non-ASCII message literals
  of the source are given below by their code units.
\<close>

type_synonym jsstring = "nat list"

definition asc :: "string \<Rightarrow> jsstring" where
  "asc s = map of_char s"

text \<open>An error object: the two properties the source reads, \<open>name\<close> and \<open>message\<close>.\<close>

record js_error =
  name :: jsstring
  message :: jsstring

definition Error :: "jsstring \<Rightarrow> js_error" where
  "Error m = \<lparr>name = asc ''Error'', message = m\<rparr>"

section \<open>The playback arbiter (AudioQueueManager)\<close>

text \<open>
  The class has three fields: \<open>currentPlayingId\<close> (a string or null), \<open>playQueue\<close> and
  \<open>isProcessing\<close>. Its methods are asynchronous: the host runs one job at a time, and a
  method is suspended only at \<open>await\<close>. The model is a transition system whose events are
  the jobs of the host: a call of a public method, the settling of a started action (which
  runs the continuation that awaits it), and the resumption of the queue-draining loop.

  Besides the three fields the state records what the fields do not: the actions that have
  been started and have not settled (\<open>running\<close>, each with the continuation that awaits it),
  whether the draining loop's await has been satisfied (\<open>drainResume\<close>), a counter that
  names each \<open>requestPlay\<close> call and its action (\<open>nextTok\<close>), and the observable effects
  so far (\<open>trace\<close>).
\<close>

datatype frame = Immediate | Queued

datatype outcome = Fulfilled | Rejected js_error

datatype obs =
    ActionStarted jsstring nat
  | StopNotification jsstring
  | Logged js_error
  | CallResolved nat
  | CallRejected nat js_error

record arbiter =
  currentPlayingId :: "jsstring option"
  playQueue :: "(jsstring \<times> nat) list"
  isProcessing :: bool
  running :: "(nat \<times> frame) list"
  drainResume :: bool
  nextTok :: nat
  trace :: "obs list"

definition init :: arbiter where
  "init = \<lparr>currentPlayingId = None, playQueue = [], isProcessing = False,
            running = [], drainResume = False, nextTok = 0, trace = []\<rparr>"

text \<open>
  The source tests \<open>currentPlayingId\<close> by truthiness (\<open>!this.currentPlayingId\<close>,
  \<open>if (this.currentPlayingId)\<close>): null and the empty string are both falsy.
\<close>

fun truthy :: "jsstring option \<Rightarrow> bool" where
  "truthy None = False"
| "truthy (Some i) = (i \<noteq> [])"

text \<open>\<open>stopCurrent\<close>: when something is playing, dispatch the stop event and clear.\<close>

definition stopCurrent :: "arbiter \<Rightarrow> arbiter" where
  "stopCurrent s =
     (if truthy (currentPlayingId s)
      then s\<lparr>trace := trace s @ [StopNotification (the (currentPlayingId s))],
             currentPlayingId := None\<rparr>
      else s)"

text \<open>
  One turn of the \<open>while\<close> loop of \<open>processQueue\<close>, up to its \<open>await\<close>: either the loop
  condition fails and \<open>isProcessing\<close> is reset, or the head of the queue is shifted, recorded
  as current and its wrapper is called, which calls the action.
\<close>

definition drainLoop :: "arbiter \<Rightarrow> arbiter" where
  "drainLoop s =
     (case playQueue s of
        [] \<Rightarrow> s\<lparr>isProcessing := False\<rparr>
      | (i, tok) # rest \<Rightarrow>
          if truthy (currentPlayingId s) then s\<lparr>isProcessing := False\<rparr>
          else s\<lparr>playQueue := rest, currentPlayingId := Some i,
                 running := running s @ [(tok, Queued)],
                 trace := trace s @ [ActionStarted i tok]\<rparr>)"

definition processQueue :: "arbiter \<Rightarrow> arbiter" where
  "processQueue s =
     (if isProcessing s \<or> playQueue s = [] \<or> truthy (currentPlayingId s) then s
      else drainLoop (s\<lparr>isProcessing := True\<rparr>))"

text \<open>
  \<open>requestPlay\<close> up to its \<open>await\<close>. On the two immediate paths the action is called at
  once; on the third the request is pushed with a wrapper around the action.
\<close>

definition startImmediate :: "jsstring \<Rightarrow> arbiter \<Rightarrow> arbiter" where
  "startImmediate i s =
     s\<lparr>currentPlayingId := Some i,
       running := running s @ [(nextTok s, Immediate)],
       trace := trace s @ [ActionStarted i (nextTok s)],
       nextTok := Suc (nextTok s)\<rparr>"

definition requestPlay :: "jsstring \<Rightarrow> arbiter \<Rightarrow> arbiter" where
  "requestPlay i s =
     (if \<not> truthy (currentPlayingId s) then startImmediate i s
      else if currentPlayingId s = Some i then startImmediate i (stopCurrent s)
      else s\<lparr>playQueue := playQueue s @ [(i, nextTok s)], nextTok := Suc (nextTok s)\<rparr>)"

definition onPlayEnded :: "jsstring \<Rightarrow> arbiter \<Rightarrow> arbiter" where
  "onPlayEnded i s =
     (if currentPlayingId s = Some i then processQueue (s\<lparr>currentPlayingId := None\<rparr>)
      else s)"

definition clearQueue :: "arbiter \<Rightarrow> arbiter" where
  "clearQueue s = s\<lparr>playQueue := []\<rparr>"

definition getQueueLength :: "arbiter \<Rightarrow> nat" where
  "getQueueLength s = length (playQueue s)"

definition getCurrentPlayingId :: "arbiter \<Rightarrow> jsstring option" where
  "getCurrentPlayingId s = currentPlayingId s"

definition isPlaying :: "jsstring \<Rightarrow> arbiter \<Rightarrow> bool" where
  "isPlaying i s = (currentPlayingId s = Some i)"

text \<open>
  The settling of a started action runs the continuation that awaits it. On the immediate
  path that is the \<open>finally\<close> block of \<open>requestPlay\<close> (clear, call \<open>processQueue\<close>) followed
  by the settling of the caller's promise, fulfilled or rejected as the action was. For a
  queued action it is the wrapper: \<open>resolve()\<close>, after \<open>console.error\<close> when the action
  rejected; the wrapper's own promise is then fulfilled, which makes the draining loop
  resumable. An action that is not running cannot settle: the event leaves the state as it is.
\<close>

definition unrun :: "nat \<Rightarrow> (nat \<times> frame) list \<Rightarrow> (nat \<times> frame) list" where
  "unrun tok rs = filter (\<lambda>r. fst r \<noteq> tok) rs"

definition settle :: "nat \<Rightarrow> outcome \<Rightarrow> arbiter \<Rightarrow> arbiter" where
  "settle tok oc s =
     (case map_of (running s) tok of
        None \<Rightarrow> s
      | Some Immediate \<Rightarrow>
          (let s1 = processQueue (s\<lparr>running := unrun tok (running s), currentPlayingId := None\<rparr>)
           in s1\<lparr>trace := trace s1 @
                   [case oc of Fulfilled \<Rightarrow> CallResolved tok | Rejected e \<Rightarrow> CallRejected tok e]\<rparr>)
      | Some Queued \<Rightarrow>
          s\<lparr>running := unrun tok (running s), drainResume := True,
            trace := trace s @
              (case oc of Fulfilled \<Rightarrow> [CallResolved tok]
                        | Rejected e \<Rightarrow> [Logged e, CallResolved tok])\<rparr>)"

text \<open>
  The draining loop resumes after its \<open>await\<close>: the \<open>finally\<close> block clears
  \<open>currentPlayingId\<close> and the loop takes its next turn.
\<close>

definition resumeDrain :: "arbiter \<Rightarrow> arbiter" where
  "resumeDrain s =
     (if drainResume s then drainLoop (s\<lparr>drainResume := False, currentPlayingId := None\<rparr>)
      else s)"

datatype event =
    RequestPlay jsstring
  | StopCurrent
  | OnPlayEnded jsstring
  | ClearQueue
  | Settle nat outcome
  | ResumeDrain

fun step :: "arbiter \<Rightarrow> event \<Rightarrow> arbiter" where
  "step s (RequestPlay i) = requestPlay i s"
| "step s StopCurrent = stopCurrent s"
| "step s (OnPlayEnded i) = onPlayEnded i s"
| "step s ClearQueue = clearQueue s"
| "step s (Settle tok oc) = settle tok oc s"
| "step s ResumeDrain = resumeDrain s"

definition run :: "arbiter \<Rightarrow> event list \<Rightarrow> arbiter" where
  "run s evs = foldl step s evs"

section \<open>String operations of the host\<close>

text \<open>
  \<open>trim\<close> removes the white space and line terminators of ECMAScript from both ends;
  \<open>split('\n')\<close> cuts at every line feed and keeps empty pieces; \<open>includes\<close> is the
  substring test. \<open>toLowerCase\<close> is given on the letters A to Z, which is where the
  needles of the source (digits and lower-case ASCII letters) can be affected.
\<close>

definition isWhiteSpace :: "nat \<Rightarrow> bool" where
  "isWhiteSpace c \<longleftrightarrow>
     c = 9 \<or> c = 10 \<or> c = 11 \<or> c = 12 \<or> c = 13 \<or> c = 32 \<or> c = 160 \<or> c = 5760
     \<or> (8192 \<le> c \<and> c \<le> 8202) \<or> c = 8232 \<or> c = 8233 \<or> c = 8239 \<or> c = 8287
     \<or> c = 12288 \<or> c = 65279"

definition trim :: "jsstring \<Rightarrow> jsstring" where
  "trim s = rev (dropWhile isWhiteSpace (rev (dropWhile isWhiteSpace s)))"

fun split_nl :: "jsstring \<Rightarrow> jsstring list" where
  "split_nl [] = [Nil]"
| "split_nl (c # cs) =
     (if c = 10 then [] # split_nl cs
      else (case split_nl cs of [] \<Rightarrow> [c] # [] | l # ls \<Rightarrow> (c # l) # ls))"

definition startsWith :: "jsstring \<Rightarrow> jsstring \<Rightarrow> bool" where
  "startsWith s p = (take (length p) s = p)"

fun includesStr :: "jsstring \<Rightarrow> jsstring \<Rightarrow> bool" where
  "includesStr [] p = (p = [])"
| "includesStr (c # cs) p = (startsWith (c # cs) p \<or> includesStr cs p)"

definition toLowerCase :: "jsstring \<Rightarrow> jsstring" where
  "toLowerCase s = map (\<lambda>c. if 65 \<le> c \<and> c \<le> 90 then c + 32 else c) s"

text \<open>
  A number in a template literal is rendered in decimal. Status codes and HTTP statuses are
  integers; the rendering below is the one of the host for integers of magnitude below
  \<open>10^21\<close>.
\<close>

function digits :: "nat \<Rightarrow> jsstring" where
  "digits n = (if n < 10 then [48 + n] else digits (n div 10) @ [48 + n mod 10])"
  by pat_completeness auto
termination
  by (relation "measure id") auto

declare digits.simps [simp del]

definition numToString :: "int \<Rightarrow> jsstring" where
  "numToString k = (if k < 0 then 45 # digits (nat (- k)) else digits (nat k))"

text \<open>\<open>x || d\<close> for a string property that may be absent: the default replaces an absent
  and an empty string alike.\<close>

fun orElse :: "jsstring option \<Rightarrow> jsstring \<Rightarrow> jsstring" where
  "orElse None d = d"
| "orElse (Some s) d = (if s = [] then d else s)"

section \<open>The synthesis client (TTSService)\<close>

subsection \<open>Message literals\<close>

text \<open>ERR_CONFIG: the TTS configuration is incomplete, check APP_ID and ACCESS_KEY in the environment (35 code units).\<close>

definition ERR_CONFIG :: jsstring where
  "ERR_CONFIG = asc ''TTS'' @ [37197, 32622, 19981, 23436, 25972, 65292, 35831, 26816,
     26597, 29615, 22659, 21464, 37327, 20013, 30340] @ asc ''APP_ID'' @ [21644] @ asc
     ''ACCESS_KEY''"

text \<open>ERR_EMPTY_TEXT: the text must not be empty (8 code units).\<close>

definition ERR_EMPTY_TEXT :: jsstring where
  "ERR_EMPTY_TEXT = [25991, 26412, 20869, 23481, 19981, 33021, 20026, 31354]"

text \<open>ERR_TOO_LONG: the text must not be longer than 1000 characters (15 code units).\<close>

definition ERR_TOO_LONG :: jsstring where
  "ERR_TOO_LONG = [25991, 26412, 38271, 24230, 19981, 33021, 36229, 36807] @ asc
     ''1000'' @ [20010, 23383, 31526]"

text \<open>MSG_TIMEOUT: request timed out, check the network connection (12 code units).\<close>

definition MSG_TIMEOUT :: jsstring where
  "MSG_TIMEOUT = [35831, 27714, 36229, 26102, 65292, 35831, 26816, 26597, 32593, 32476,
     36830, 25509]"

text \<open>MSG_AUTH: API authentication failed, check the access key (17 code units).\<close>

definition MSG_AUTH :: jsstring where
  "MSG_AUTH = asc ''API'' @ [35748, 35777, 22833, 36133, 65292, 35831, 26816, 26597,
     35775, 38382, 23494, 38053, 37197, 32622]"

text \<open>MSG_PERMISSION: insufficient API permission, check the account (15 code units).\<close>

definition MSG_PERMISSION :: jsstring where
  "MSG_PERMISSION = asc ''API'' @ [26435, 38480, 19981, 36275, 65292, 35831, 26816,
     26597, 36134, 25143, 26435, 38480]"

text \<open>MSG_RATE: API called too often, try again later (15 code units).\<close>

definition MSG_RATE :: jsstring where
  "MSG_RATE = asc ''API'' @ [35843, 29992, 39057, 29575, 36807, 39640, 65292, 35831,
     31245, 21518, 20877, 35797]"

text \<open>MSG_SERVER: internal server error, try again later (13 code units).\<close>

definition MSG_SERVER :: jsstring where
  "MSG_SERVER = [26381, 21153, 22120, 20869, 37096, 38169, 35823, 65292, 35831, 31245,
     21518, 20877, 35797]"

text \<open>MSG_NETWORK: network connection failed, check the network settings (14 code units).\<close>

definition MSG_NETWORK :: jsstring where
  "MSG_NETWORK = [32593, 32476, 36830, 25509, 22833, 36133, 65292, 35831, 26816, 26597,
     32593, 32476, 35774, 32622]"

text \<open>MSG_UNAVAILABLE: the synthesis service is temporarily unavailable (11 code units).\<close>

definition MSG_UNAVAILABLE :: jsstring where
  "MSG_UNAVAILABLE = [35821, 38899, 21512, 25104, 26381, 21153, 26242, 26102, 19981,
     21487, 29992]"

text \<open>MSG_REQUEST_FAILED: API request failed:  (9 code units).\<close>

definition MSG_REQUEST_FAILED :: jsstring where
  "MSG_REQUEST_FAILED = asc ''API'' @ [35831, 27714, 22833, 36133] @ asc '': ''"

text \<open>MSG_EMPTY_RESPONSE: the API returned an empty response (8 code units).\<close>

definition MSG_EMPTY_RESPONSE :: jsstring where
  "MSG_EMPTY_RESPONSE = asc ''API'' @ [36820, 22238, 31354, 21709, 24212]"

text \<open>MSG_API_ERROR: the API returned an error:  (9 code units).\<close>

definition MSG_API_ERROR :: jsstring where
  "MSG_API_ERROR = asc ''API'' @ [36820, 22238, 38169, 35823] @ asc '': ''"

text \<open>MSG_UNKNOWN: unknown error (4 code units).\<close>

definition MSG_UNKNOWN :: jsstring where
  "MSG_UNKNOWN = [26410, 30693, 38169, 35823]"

text \<open>MSG_CODE:  (status code:  (7 code units).\<close>

definition MSG_CODE :: jsstring where
  "MSG_CODE = asc '' ('' @ [29366, 24577, 30721] @ asc '': ''"

text \<open>MSG_LINE: line number prefix (1 code units).\<close>

definition MSG_LINE :: jsstring where
  "MSG_LINE = [31532]"

text \<open>MSG_LINE_FAILED: line: JSON parsing failed:  (11 code units).\<close>

definition MSG_LINE_FAILED :: jsstring where
  "MSG_LINE_FAILED = [34892] @ asc ''JSON'' @ [35299, 26512, 22833, 36133] @ asc '': ''"

text \<open>MSG_NO_AUDIO_DATA: synthesis failed: the API returned empty audio data, the voice may be unsupported or the parameters wrong (36 code units).\<close>

definition MSG_NO_AUDIO_DATA :: jsstring where
  "MSG_NO_AUDIO_DATA = asc ''TTS'' @ [21512, 25104, 22833, 36133, 65306] @ asc ''API'' @
     [36820, 22238, 30340, 38899, 39057, 25968, 25454, 20026, 31354, 65292, 21487,
     33021, 26159, 38899, 33394, 19981, 25903, 25345, 25110, 21442, 25968, 37197, 32622,
     38382, 39064]"

text \<open>MSG_NOT_JSON: the API did not return valid JSON:  (19 code units).\<close>

definition MSG_NOT_JSON :: jsstring where
  "MSG_NOT_JSON = asc ''API'' @ [36820, 22238, 30340, 19981, 26159, 26377, 25928, 30340]
     @ asc ''JSON'' @ [26684, 24335] @ asc '': ''"

text \<open>MSG_SYNTHESIS_FAILED: speech synthesis failed (6 code units).\<close>

definition MSG_SYNTHESIS_FAILED :: jsstring where
  "MSG_SYNTHESIS_FAILED = [35821, 38899, 21512, 25104, 22833, 36133]"

text \<open>MSG_EMPTY_AUDIO: the API returned empty audio data (12 code units).\<close>

definition MSG_EMPTY_AUDIO :: jsstring where
  "MSG_EMPTY_AUDIO = asc ''API'' @ [36820, 22238, 30340, 38899, 39057, 25968, 25454,
     20026, 31354]"

subsection \<open>Data\<close>

record TTSConfig =
  appId :: jsstring
  accessKey :: jsstring
  apiUrl :: jsstring
  resourceId :: jsstring

text \<open>
  Of a request the functions below read \<open>text\<close> (here \<open>requestText\<close>); \<open>speaker\<close> and the audio parameters
  are only copied into the request body, which the model of the network does not inspect.
\<close>

record TTSRequest =
  requestText :: jsstring
  speaker :: jsstring

record TTSResponse =
  success :: bool
  data :: "(jsstring \<times> nat) option"
  error :: "jsstring option"

definition succeeded :: "jsstring \<Rightarrow> nat \<Rightarrow> TTSResponse" where
  "succeeded audio now = \<lparr>success = True, data = Some (audio, now), error = None\<rparr>"

definition failed :: "jsstring \<Rightarrow> TTSResponse" where
  "failed msg = \<lparr>success = False, data = None, error = Some msg\<rparr>"

text \<open>
  One parsed line of the response body, typed by the wire contract: \<open>code\<close> is an integer,
  \<open>message\<close> and \<open>data\<close> are strings or absent (an absent property and \<open>null\<close> behave alike
  in every test the source makes). \<open>JSON.parse\<close> belongs to the host; the functions below
  take it as the parameter \<open>parse\<close>, which returns the fragment or the error that is
  thrown: by \<open>JSON.parse\<close> itself, or by the first property access when the parsed value
  is \<open>null\<close>.
\<close>

record fragment =
  frag_code :: int
  frag_message :: "jsstring option"
  frag_data :: "jsstring option"

type_synonym parser = "jsstring \<Rightarrow> js_error + fragment"

text \<open>
  The network. A call of \<open>fetch\<close> either rejects (a network failure, or the abort that
  the 30 second timer triggers, whose error is named \<open>AbortError\<close>) or resolves with a
  response; the timer makes every fetch settle. \<open>requestWithRetry\<close> clears the timer as soon
  as the fetch has resolved (\<open>clearTimeout(timeoutId)\<close>), so the later reading of the body,
  \<open>response.text()\<close>, is bounded by nothing: it yields the text, rejects, or never settles.
  The outcome of the n-th attempt of a call is \<open>net n\<close>.
\<close>

datatype body_read = BodyText jsstring | BodyRejects js_error | BodyNeverSettles

record response =
  ok :: bool
  status :: nat
  statusText :: jsstring
  bodyText :: body_read

datatype fetch_outcome = FetchRejects js_error | FetchResolves response

datatype effect = is_Fetch: Fetch nat | is_Delay: Delay nat

text \<open>What becomes of the promise that an asynchronous function returns.\<close>

datatype 'a promise = Resolves 'a | Rejects js_error | Pending

definition retryCount :: nat where
  "retryCount = 3"

definition retryDelay :: nat where
  "retryDelay = 1000"

definition requestTimeout :: nat where
  "requestTimeout = 30000"

subsection \<open>Transport\<close>

definition isConfigurationError :: "js_error \<Rightarrow> bool" where
  "isConfigurationError e =
     (let errorMessage = toLowerCase (message e) in
        includesStr errorMessage (asc ''401'') \<or>
        includesStr errorMessage (asc ''403'') \<or>
        includesStr errorMessage (asc ''invalid'') \<or>
        includesStr errorMessage (asc ''unauthorized''))"

text \<open>The \<open>try\<close> block of one attempt: the fetch, then the check of \<open>response.ok\<close>.\<close>

definition attempt :: "fetch_outcome \<Rightarrow> js_error + response" where
  "attempt oc =
     (case oc of
        FetchRejects e \<Rightarrow> Inl e
      | FetchResolves r \<Rightarrow>
          if \<not> ok r
          then Inl (Error (asc ''HTTP '' @ numToString (int (status r)) @ asc '': '' @ statusText r))
          else Inr r)"

function requestWithRetry :: "(nat \<Rightarrow> fetch_outcome) \<Rightarrow> nat \<Rightarrow> (js_error + response) \<times> effect list" where
  "requestWithRetry net n =
     (case attempt (net n) of
        Inr r \<Rightarrow> (Inr r, [Fetch n])
      | Inl e \<Rightarrow>
          if n < retryCount \<and> \<not> isConfigurationError e
          then (case requestWithRetry net (n + 1) of
                  (res, fx) \<Rightarrow> (res, Fetch n # Delay retryDelay # fx))
          else (Inl e, [Fetch n]))"
  by pat_completeness auto
termination
  by (relation "measure (\<lambda>(net, n). retryCount - n)") auto

declare requestWithRetry.simps [simp del]

definition handleApiError :: "js_error \<Rightarrow> jsstring" where
  "handleApiError e =
     (if name e = asc ''AbortError'' then MSG_TIMEOUT
      else let errorMessage = message e in
        if includesStr errorMessage (asc ''401'') then MSG_AUTH
        else if includesStr errorMessage (asc ''403'') then MSG_PERMISSION
        else if includesStr errorMessage (asc ''429'') then MSG_RATE
        else if includesStr errorMessage (asc ''500'') then MSG_SERVER
        else if includesStr errorMessage (asc ''network'') \<or> includesStr errorMessage (asc ''fetch'')
        then MSG_NETWORK
        else if errorMessage \<noteq> [] then errorMessage else MSG_UNAVAILABLE)"

definition validateConfig :: "TTSConfig \<Rightarrow> bool" where
  "validateConfig cfg \<longleftrightarrow> appId cfg \<noteq> [] \<and> accessKey cfg \<noteq> []"

subsection \<open>Response assembly\<close>

definition apiErrorMessage :: "fragment \<Rightarrow> jsstring" where
  "apiErrorMessage r =
     MSG_API_ERROR @ orElse (frag_message r) MSG_UNKNOWN @ MSG_CODE
       @ numToString (frag_code r) @ asc '')''"

text \<open>
  The body of the loop over the lines, for the line with index \<open>i\<close>: the inner \<open>try\<close>
  parses the line and throws on a negative code that is not a success code; the \<open>catch\<close>
  rethrows whatever was thrown under the line's number.
\<close>

definition parseLine :: "parser \<Rightarrow> nat \<Rightarrow> jsstring \<Rightarrow> js_error + fragment" where
  "parseLine parse i line =
     (case (case parse line of
              Inl e \<Rightarrow> Inl e
            | Inr lineResult \<Rightarrow>
                if frag_code lineResult \<noteq> 0 \<and> frag_code lineResult \<noteq> 20000000
                then (if frag_code lineResult < 0
                      then Inl (Error (apiErrorMessage lineResult))
                      else Inr lineResult)
                else Inr lineResult) of
        Inl parseError \<Rightarrow>
          Inl (Error (MSG_LINE @ numToString (int i + 1) @ MSG_LINE_FAILED @ message parseError))
      | Inr lineResult \<Rightarrow> Inr lineResult)"

definition hasAudio :: "fragment \<Rightarrow> bool" where
  "hasAudio r = (case frag_data r of None \<Rightarrow> False | Some d \<Rightarrow> d \<noteq> [])"

fun collect :: "parser \<Rightarrow> nat \<Rightarrow> jsstring list \<Rightarrow> jsstring list \<Rightarrow> fragment option
    \<Rightarrow> js_error + (jsstring list \<times> fragment option)" where
  "collect parse i [] audioDataParts finalResult = Inr (audioDataParts, finalResult)"
| "collect parse i (l # ls) audioDataParts finalResult =
     (case parseLine parse i (trim l) of
        Inl e \<Rightarrow> Inl e
      | Inr lineResult \<Rightarrow>
          collect parse (Suc i) ls
            (if hasAudio lineResult then audioDataParts @ [the (frag_data lineResult)]
             else audioDataParts)
            (Some lineResult))"

text \<open>The fallback when no line carried audio: the whole body as one object.\<close>

definition singleObject :: "parser \<Rightarrow> nat \<Rightarrow> jsstring \<Rightarrow> js_error + TTSResponse" where
  "singleObject parse now responseText =
     (case (case parse (trim responseText) of
              Inl e \<Rightarrow> Inl e
            | Inr result \<Rightarrow>
                if frag_code result \<noteq> 0 \<and> frag_code result \<noteq> 20000000
                then Inl (Error (apiErrorMessage result))
                else if \<not> hasAudio result then Inl (Error MSG_NO_AUDIO_DATA)
                else Inr (succeeded (the (frag_data result)) now)) of
        Inl parseError \<Rightarrow> Inl (Error (MSG_NOT_JSON @ message parseError))
      | Inr r \<Rightarrow> Inr r)"

text \<open>
  From the check for an empty body to the result. In the final check \<open>result.code &&\<close> is
  the truthiness of a number, that is \<open>code \<noteq> 0\<close>.
\<close>

definition assemble :: "parser \<Rightarrow> nat \<Rightarrow> jsstring \<Rightarrow> js_error + TTSResponse" where
  "assemble parse now responseText =
     (if responseText = [] \<or> length (trim responseText) = 0 then Inl (Error MSG_EMPTY_RESPONSE)
      else
        let lines = filter (\<lambda>line. trim line \<noteq> []) (split_nl (trim responseText)) in
        case collect parse 0 lines [] None of
          Inl e \<Rightarrow> Inl e
        | Inr (audioDataParts, finalResult) \<Rightarrow>
            if length audioDataParts = 0 then singleObject parse now responseText
            else
              let combinedAudioData = concat audioDataParts in
              if (case finalResult of
                    None \<Rightarrow> False
                  | Some r \<Rightarrow> frag_code r \<noteq> 0 \<and> frag_code r \<noteq> 0 \<and> frag_code r \<noteq> 20000000)
              then Inl (Error (orElse (frag_message (the finalResult)) MSG_SYNTHESIS_FAILED))
              else if combinedAudioData \<noteq> [] then Inr (succeeded combinedAudioData now)
              else Inl (Error MSG_EMPTY_AUDIO))"

subsection \<open>synthesize\<close>

text \<open>
  The \<open>try\<close> block of \<open>synthesize\<close>, with the effects of the transport: it returns a
  response, throws, or stays suspended at the reading of the body (\<open>None\<close>). \<open>now\<close> is the
  value of \<open>Date.now()\<close> when the result is built.
\<close>

definition synthesizeTry :: "parser \<Rightarrow> nat \<Rightarrow> (nat \<Rightarrow> fetch_outcome) \<Rightarrow> TTSRequest
    \<Rightarrow> (js_error + TTSResponse) option \<times> effect list" where
  "synthesizeTry parse now net request =
     (case requestWithRetry net 1 of
        (Inl e, fx) \<Rightarrow> (Some (Inl e), fx)
      | (Inr resp, fx) \<Rightarrow>
          if \<not> ok resp
          then (case bodyText resp of
                  BodyNeverSettles \<Rightarrow> (None, fx)
                | BodyRejects e \<Rightarrow> (Some (Inl e), fx)
                | BodyText errorText \<Rightarrow>
                    (Some (Inl (Error (MSG_REQUEST_FAILED @ numToString (int (status resp))
                                        @ asc '' '' @ statusText resp))), fx))
          else (case bodyText resp of
                  BodyNeverSettles \<Rightarrow> (None, fx)
                | BodyRejects e \<Rightarrow> (Some (Inl e), fx)
                | BodyText responseText \<Rightarrow> (Some (assemble parse now responseText), fx)))"

text \<open>
  \<open>synthesize\<close>: the three checks, then the \<open>try\<close> block, whose \<open>catch\<close> turns what was
  thrown into a failure. While the \<open>try\<close> block is suspended the promise is pending.
\<close>

definition synthesize :: "TTSConfig \<Rightarrow> parser \<Rightarrow> nat \<Rightarrow> (nat \<Rightarrow> fetch_outcome) \<Rightarrow> TTSRequest
    \<Rightarrow> TTSResponse promise \<times> effect list" where
  "synthesize cfg parse now net request =
     (if \<not> validateConfig cfg then (Resolves (failed ERR_CONFIG), [])
      else if requestText request = [] \<or> length (trim (requestText request)) = 0
      then (Resolves (failed ERR_EMPTY_TEXT), [])
      else if length (requestText request) > 1000 then (Resolves (failed ERR_TOO_LONG), [])
      else
        (case synthesizeTry parse now net request of
           (None, fx) \<Rightarrow> (Pending, fx)
         | (Some (Inl e), fx) \<Rightarrow> (Resolves (failed (handleApiError e)), fx)
         | (Some (Inr r), fx) \<Rightarrow> (Resolves r, fx)))"

subsection \<open>A decoder for the wire format\<close>

text \<open>
  The theorems below hold for every \<open>parse\<close>. For closed examples the parameter is
  instantiated with a decoder of the wire format: one JSON object whose members are integer
  literals, strings without escapes or \<open>null\<close>, with JSON white space between the tokens.
  On these texts it returns what \<open>JSON.parse\<close> returns, read as a fragment; any other text
  it refuses.
\<close>

definition jsonSpace :: "nat \<Rightarrow> bool" where
  "jsonSpace c \<longleftrightarrow> c = 32 \<or> c = 9 \<or> c = 10 \<or> c = 13"

definition expect :: "nat \<Rightarrow> jsstring \<Rightarrow> jsstring option" where
  "expect ch s =
     (case dropWhile jsonSpace s of
        [] \<Rightarrow> None
      | c # rest \<Rightarrow> if c = ch then Some rest else None)"

fun wireString :: "jsstring \<Rightarrow> (jsstring \<times> jsstring) option" where
  "wireString [] = None"
| "wireString (c # cs) =
     (if c = 34 then Some ([], cs)
      else if c = 92 \<or> c < 32 then None
      else (case wireString cs of None \<Rightarrow> None | Some (s, rest) \<Rightarrow> Some (c # s, rest)))"

definition isDigit :: "nat \<Rightarrow> bool" where
  "isDigit c \<longleftrightarrow> 48 \<le> c \<and> c \<le> 57"

definition digitsValue :: "jsstring \<Rightarrow> nat" where
  "digitsValue ds = foldl (\<lambda>a c. 10 * a + (c - 48)) 0 ds"

definition wireInt :: "jsstring \<Rightarrow> (int \<times> jsstring) option" where
  "wireInt s =
     (let neg = startsWith s [45];
          r = (if neg then tl s else s);
          ds = takeWhile isDigit r;
          rest = dropWhile isDigit r
      in if ds = [] \<or> (1 < length ds \<and> hd ds = 48) then None
         else if startsWith rest [46] \<or> startsWith rest [101] \<or> startsWith rest [69] then None
         else Some (if neg then - int (digitsValue ds) else int (digitsValue ds), rest))"

datatype wire_value = WInt int | WStr jsstring | WNull

definition wireValue :: "jsstring \<Rightarrow> (wire_value \<times> jsstring) option" where
  "wireValue s =
     (case expect 34 s of
        Some r \<Rightarrow> (case wireString r of None \<Rightarrow> None | Some (x, rest) \<Rightarrow> Some (WStr x, rest))
      | None \<Rightarrow>
          if startsWith (dropWhile jsonSpace s) (asc ''null'')
          then Some (WNull, drop 4 (dropWhile jsonSpace s))
          else (case wireInt (dropWhile jsonSpace s) of
                  None \<Rightarrow> None
                | Some (k, rest) \<Rightarrow> Some (WInt k, rest)))"

text \<open>The members after the opening brace, up to the closing brace and the end of the
  text; the first argument bounds the number of members.\<close>

fun wireMembers :: "nat \<Rightarrow> jsstring \<Rightarrow> (jsstring \<times> wire_value) list option" where
  "wireMembers 0 s = None"
| "wireMembers (Suc n) s =
     (case expect 34 s of
        None \<Rightarrow> None
      | Some r \<Rightarrow>
          (case wireString r of
             None \<Rightarrow> None
           | Some (key, r1) \<Rightarrow>
               (case expect 58 r1 of
                  None \<Rightarrow> None
                | Some r2 \<Rightarrow>
                    (case wireValue r2 of
                       None \<Rightarrow> None
                     | Some (v, r3) \<Rightarrow>
                         (case expect 44 r3 of
                            Some r4 \<Rightarrow>
                              (case wireMembers n r4 of
                                 None \<Rightarrow> None
                               | Some ms \<Rightarrow> Some ((key, v) # ms))
                          | None \<Rightarrow>
                              (case expect 125 r3 of
                                 None \<Rightarrow> None
                               | Some r4 \<Rightarrow>
                                   if dropWhile jsonSpace r4 = [] then Some [(key, v)]
                                   else None))))))"

definition syntaxError :: js_error where
  "syntaxError = \<lparr>name = asc ''SyntaxError'', message = asc ''Unexpected token''\<rparr>"

text \<open>A later member replaces an earlier one of the same key, as in \<open>JSON.parse\<close>.\<close>

definition wireField :: "(jsstring \<times> wire_value) list \<Rightarrow> string \<Rightarrow> wire_value option" where
  "wireField ms k = map_of (rev ms) (asc k)"

definition wireText :: "wire_value option \<Rightarrow> (jsstring option) option" where
  "wireText v =
     (case v of
        None \<Rightarrow> Some None
      | Some WNull \<Rightarrow> Some None
      | Some (WStr x) \<Rightarrow> Some (Some x)
      | Some (WInt k) \<Rightarrow> None)"

definition wireParse :: parser where
  "wireParse s =
     (case expect 123 s of
        None \<Rightarrow> Inl syntaxError
      | Some r \<Rightarrow>
          (case wireMembers (length s) r of
             None \<Rightarrow> Inl syntaxError
           | Some ms \<Rightarrow>
               (case (wireField ms ''code'', wireText (wireField ms ''message''),
                      wireText (wireField ms ''data'')) of
                  (Some (WInt k), Some m, Some d) \<Rightarrow>
                    Inr \<lparr>frag_code = k, frag_message = m, frag_data = d\<rparr>
                | _ \<Rightarrow> Inl syntaxError)))"

section \<open>Notions used in the statements and proofs\<close>

text \<open>
  The number of started actions that the draining loop awaits.
\<close>

definition qcount :: "arbiter \<Rightarrow> nat" where
  "qcount s = length (filter (\<lambda>r. snd r = Queued) (running s))"

text \<open>
  The counter names calls apart: the names of the running and of the queued actions are
  distinct and below the counter, and so is every name in a recorded rejection.
\<close>

definition tokens_ok :: "arbiter \<Rightarrow> bool" where
  "tokens_ok s \<longleftrightarrow>
     distinct (map fst (running s) @ map snd (playQueue s)) \<and>
     (\<forall>r \<in> set (running s). fst r < nextTok s) \<and>
     (\<forall>q \<in> set (playQueue s). snd q < nextTok s) \<and>
     (\<forall>t e. CallRejected t e \<in> set (trace s) \<longrightarrow> t < nextTok s)"

text \<open>
  \<open>isProcessing\<close> is set exactly while the draining loop is suspended at its await:
  either its action is running or its resumption is pending, never both.
\<close>

definition drain_ok :: "arbiter \<Rightarrow> bool" where
  "drain_ok s \<longleftrightarrow>
     qcount s + (if drainResume s then 1 else 0) = (if isProcessing s then 1 else 0)"

text \<open>
  A call that does not preempt: a \<open>requestPlay\<close> with a non-empty identity other than the
  recorded one, and a \<open>stopCurrent\<close> or an \<open>onPlayEnded\<close> that finds nothing to do. Settling,
  resumption and \<open>clearQueue\<close> are always allowed. \<open>unpreempted s evs\<close> says that every
  event of \<open>evs\<close> is allowed in the state in which it happens, starting from \<open>s\<close>.
\<close>

fun allowed :: "arbiter \<Rightarrow> event \<Rightarrow> bool" where
  "allowed s (RequestPlay i) = (i \<noteq> [] \<and> currentPlayingId s \<noteq> Some i)"
| "allowed s StopCurrent = (\<not> truthy (currentPlayingId s))"
| "allowed s (OnPlayEnded i) = (currentPlayingId s \<noteq> Some i)"
| "allowed s ClearQueue = True"
| "allowed s (Settle tok oc) = True"
| "allowed s ResumeDrain = True"

fun unpreempted :: "arbiter \<Rightarrow> event list \<Rightarrow> bool" where
  "unpreempted s [] = True"
| "unpreempted s (ev # evs) = (allowed s ev \<and> unpreempted (step s ev) evs)"

text \<open>
  The states of a run without preemption: nothing runs, or one action runs on the immediate
  path, or one runs for the draining loop, or the loop is about to resume.
\<close>

definition serial :: "arbiter \<Rightarrow> bool" where
  "serial s \<longleftrightarrow>
     (\<forall>q \<in> set (playQueue s). fst q \<noteq> []) \<and>
     ((running s = [] \<and> \<not> isProcessing s \<and> \<not> drainResume s) \<or>
      (\<exists>t. running s = [(t, Immediate)] \<and> \<not> isProcessing s \<and> \<not> drainResume s
           \<and> truthy (currentPlayingId s)) \<or>
      (\<exists>t. running s = [(t, Queued)] \<and> isProcessing s \<and> \<not> drainResume s
           \<and> truthy (currentPlayingId s)) \<or>
      (running s = [] \<and> isProcessing s \<and> drainResume s \<and> truthy (currentPlayingId s)))"

text \<open>
  \<open>awaited t f s\<close>: the action named \<open>t\<close> is running and the continuation \<open>f\<close>
  awaits it.
\<close>

definition awaited :: "nat \<Rightarrow> frame \<Rightarrow> arbiter \<Rightarrow> bool" where
  "awaited t f s \<longleftrightarrow> map_of (running s) t = Some f"

text \<open>
  What holds of a queued request from the moment it is pushed: it never runs on the
  immediate path and no rejection of its caller's promise is recorded.
\<close>

definition swallowed :: "nat \<Rightarrow> arbiter \<Rightarrow> bool" where
  "swallowed t s \<longleftrightarrow>
     t < nextTok s \<and> map_of (running s) t \<noteq> Some Immediate \<and>
     (\<forall>e. CallRejected t e \<notin> set (trace s))"

text \<open>
  The audio chunks of a list of fragments: the \<open>data\<close> of every fragment that has a
  non-empty one, in the order of the list.
\<close>

definition audioChunks :: "fragment list \<Rightarrow> jsstring list" where
  "audioChunks frs = map (\<lambda>r. the (frag_data r)) (filter hasAudio frs)"

text \<open>
  The failures that are not retried, in words: the message contains 401, 403, invalid or
  unauthorized, in any letter case. \<open>sameLetter\<close> compares two code units up to the case
  of the letters A to Z, \<open>spelledAt w t\<close> says that the text \<open>t\<close> begins with the word
  \<open>w\<close> up to letter case, and \<open>mentions t w\<close> that the word occurs somewhere in the
  text. These definitions are written from the words, without \<open>toLowerCase\<close> and
  \<open>includes\<close>; \<open>isConfigurationError_words\<close> compares them with the test of the
  source.
\<close>

definition sameLetter :: "nat \<Rightarrow> nat \<Rightarrow> bool" where
  "sameLetter a b \<longleftrightarrow>
     a = b \<or> (65 \<le> a \<and> a \<le> 90 \<and> b = a + 32) \<or> (65 \<le> b \<and> b \<le> 90 \<and> a = b + 32)"

fun spelledAt :: "jsstring \<Rightarrow> jsstring \<Rightarrow> bool" where
  "spelledAt [] t = True"
| "spelledAt (w # ws) [] = False"
| "spelledAt (w # ws) (c # cs) = (sameLetter w c \<and> spelledAt ws cs)"

fun mentions :: "jsstring \<Rightarrow> jsstring \<Rightarrow> bool" where
  "mentions [] w = spelledAt w []"
| "mentions (c # cs) w = (spelledAt w (c # cs) \<or> mentions cs w)"

definition indicatesConfigurationError :: "jsstring \<Rightarrow> bool" where
  "indicatesConfigurationError m \<longleftrightarrow>
     mentions m (asc ''401'') \<or> mentions m (asc ''403'') \<or> mentions m (asc ''invalid'')
     \<or> mentions m (asc ''unauthorized'')"

text \<open>
  A word without capital letters.
\<close>

definition lowerWord :: "jsstring \<Rightarrow> bool" where
  "lowerWord w \<longleftrightarrow> (\<forall>c \<in> set w. c < 65 \<or> 90 < c)"

text \<open>
  A request that passes the two checks of the text: not blank, at most 1000 code units.
\<close>

definition validRequest :: "TTSRequest \<Rightarrow> bool" where
  "validRequest request \<longleftrightarrow>
     trim (requestText request) \<noteq> [] \<and> length (requestText request) \<le> 1000"

text \<open>
  The lines of a response body as the source computes them: the trimmed body is cut at
  line feeds and the blank pieces are dropped.
\<close>

definition bodyLines :: "jsstring \<Rightarrow> jsstring list" where
  "bodyLines body = filter (\<lambda>line. trim line \<noteq> []) (split_nl (trim body))"

text \<open>
  The substrings that make \<open>handleApiError\<close> replace a message by a fixed one.
\<close>

definition errorTriggers :: "jsstring list" where
  "errorTriggers = [asc ''401'', asc ''403'', asc ''429'', asc ''500'', asc ''network'', asc ''fetch'']"

section \<open>Example inputs\<close>

text \<open>
  Inputs for the closed examples: a complete and an incomplete configuration, requests,
  responses, bodies made of lines of the wire format, and networks (the outcome of each
  attempt).
\<close>

definition exampleConfig :: TTSConfig where
  "exampleConfig = \<lparr>appId = asc ''app'', accessKey = asc ''key'',
     apiUrl = asc ''https://openspeech.bytedance.com/api/v1/tts'', resourceId = asc ''volc.tts.zh_cn''\<rparr>"

definition exampleRequest :: TTSRequest where
  "exampleRequest = \<lparr>requestText = asc ''hello'', speaker = asc ''zh_male''\<rparr>"

definition okResponse :: "jsstring \<Rightarrow> response" where
  "okResponse body = \<lparr>ok = True, status = 200, statusText = asc ''OK'', bodyText = BodyText body\<rparr>"


definition line_AA :: jsstring where
  \<open>line_AA = asc ''{"code":0,"message":"ok","data":"AA"}''\<close>

definition line_BB :: jsstring where
  \<open>line_BB = asc ''{"code":0,"message":"ok","data":"BB"}''\<close>

definition line_done :: jsstring where
  \<open>line_done = asc ''{"code":0,"message":"done","data":""}''\<close>

definition line_busy :: jsstring where
  \<open>line_busy = asc ''{"code":10,"message":"busy","data":"BB"}''\<close>

definition line_warn :: jsstring where
  \<open>line_warn = asc ''{"code":3,"message":"warn"}''\<close>

definition line_bad :: jsstring where
  \<open>line_bad = asc ''{"code":-5,"message":"bad"}''\<close>

definition line_e500 :: jsstring where
  \<open>line_e500 = asc ''{"code":7,"message":"e500","data":""}''\<close>

definition line_mute :: jsstring where
  \<open>line_mute = asc ''{"code":7,"data":""}''\<close>

definition line_note :: jsstring where
  \<open>line_note = asc ''{"code":7,"message":"note","data":""}''\<close>

definition twoLines :: "jsstring \<Rightarrow> jsstring \<Rightarrow> jsstring" where
  "twoLines a b = a @ [10] @ b"

definition threeLineBody :: jsstring where
  "threeLineBody = line_AA @ [10] @ line_BB @ [10] @ line_done"

definition serving :: "jsstring \<Rightarrow> nat \<Rightarrow> fetch_outcome" where
  "serving body n = FetchResolves (okResponse body)"




definition timingOut :: "nat \<Rightarrow> fetch_outcome" where
  "timingOut n = FetchRejects \<lparr>name = asc ''AbortError'', message = asc ''The user aborted a request.''\<rparr>"

definition stalling :: "nat \<Rightarrow> fetch_outcome" where
  "stalling n = FetchResolves \<lparr>ok = True, status = 200, statusText = asc ''OK'', bodyText = BodyNeverSettles\<rparr>"

definition missingKey :: TTSConfig where
  "missingKey = \<lparr>appId = asc ''app'', accessKey = [],
     apiUrl = asc ''https://openspeech.bytedance.com/api/v1/tts'', resourceId = asc ''volc.tts.zh_cn''\<rparr>"

definition textOf :: "jsstring \<Rightarrow> TTSRequest" where
  "textOf t = \<lparr>requestText = t, speaker = asc ''zh_male''\<rparr>"

definition offline :: "nat \<Rightarrow> fetch_outcome" where
  "offline n = FetchRejects \<lparr>name = asc ''TypeError'', message = asc ''Failed to fetch''\<rparr>"

section \<open>Properties of the playback arbiter\<close>

text \<open>
  C10. \<open>clearQueue\<close> empties only the pending queue: after it the queue length is 0, the
  currently playing identity is the one before the call, and nothing is added to the
  observable effects, so no stop notification is emitted. This holds in every state.
\<close>

theorem clearQueue_frame:
  "getQueueLength (clearQueue s) = 0
   \<and> getCurrentPlayingId (clearQueue s) = getCurrentPlayingId s
   \<and> trace (clearQueue s) = trace s
   \<and> clearQueue s = s\<lparr>playQueue := []\<rparr>"
  by (simp add: clearQueue_def getQueueLength_def getCurrentPlayingId_def)

subsection \<open>Names of calls\<close>

lemma tokens_ok_init: "tokens_ok init"
  by (simp add: tokens_ok_def init_def)

lemma tokens_ok_stopCurrent: "tokens_ok s \<Longrightarrow> tokens_ok (stopCurrent s)"
  by (auto simp: tokens_ok_def stopCurrent_def)

lemma tokens_ok_startImmediate: "tokens_ok s \<Longrightarrow> tokens_ok (startImmediate i s)"
  by (fastforce simp: tokens_ok_def startImmediate_def less_Suc_eq)

lemma tokens_ok_drainLoop: "tokens_ok s \<Longrightarrow> tokens_ok (drainLoop s)"
proof (cases "playQueue s")
  case Nil
  assume "tokens_ok s"
  with Nil show ?thesis by (simp add: tokens_ok_def drainLoop_def)
next
  case (Cons q rest)
  assume ok: "tokens_ok s"
  obtain i tok where q: "q = (i, tok)" by (cases q)
  show ?thesis
  proof (cases "truthy (currentPlayingId s)")
    case True
    with ok Cons q show ?thesis by (simp add: tokens_ok_def drainLoop_def)
  next
    case False
    have d: "distinct (map fst (running s) @ tok # map snd rest)"
      using ok Cons q by (simp add: tokens_ok_def)
    have "distinct ((map fst (running s) @ [tok]) @ map snd rest)"
      using d by simp
    moreover have "\<forall>r \<in> set (running s @ [(tok, Queued)]). fst r < nextTok s"
      using ok Cons q by (simp add: tokens_ok_def)
    moreover have "\<forall>q \<in> set rest. snd q < nextTok s"
      using ok Cons by (simp add: tokens_ok_def)
    moreover have "\<forall>t e. CallRejected t e \<in> set (trace s @ [ActionStarted i tok]) \<longrightarrow> t < nextTok s"
      using ok by (simp add: tokens_ok_def)
    ultimately show ?thesis using False Cons q
      by (simp add: tokens_ok_def drainLoop_def)
  qed
qed

lemma tokens_ok_isProcessing: "tokens_ok (s\<lparr>isProcessing := b\<rparr>) = tokens_ok s"
  by (simp add: tokens_ok_def)

lemma tokens_ok_current: "tokens_ok (s\<lparr>currentPlayingId := c\<rparr>) = tokens_ok s"
  by (simp add: tokens_ok_def)

lemma tokens_ok_drainResume: "tokens_ok (s\<lparr>drainResume := b\<rparr>) = tokens_ok s"
  by (simp add: tokens_ok_def)

lemma tokens_ok_processQueue: "tokens_ok s \<Longrightarrow> tokens_ok (processQueue s)"
  by (simp add: processQueue_def tokens_ok_drainLoop tokens_ok_isProcessing)

lemma tokens_ok_requestPlay: "tokens_ok s \<Longrightarrow> tokens_ok (requestPlay i s)"
  unfolding requestPlay_def
  by (auto simp: tokens_ok_startImmediate tokens_ok_stopCurrent)
     (fastforce simp: tokens_ok_def less_Suc_eq)

lemma tokens_ok_unrun: "tokens_ok s \<Longrightarrow> tokens_ok (s\<lparr>running := unrun tok (running s)\<rparr>)"
  by (auto simp: tokens_ok_def unrun_def distinct_map_filter)

lemma tokens_ok_trace:
  "tokens_ok s \<Longrightarrow> (\<forall>t e. CallRejected t e \<in> set xs \<longrightarrow> t < nextTok s) \<Longrightarrow>
   tokens_ok (s\<lparr>trace := trace s @ xs\<rparr>)"
  by (auto simp: tokens_ok_def)

lemma nextTok_drainLoop: "nextTok (drainLoop s) = nextTok s"
  by (simp add: drainLoop_def split: list.splits)

lemma nextTok_processQueue: "nextTok (processQueue s) = nextTok s"
  by (simp add: processQueue_def nextTok_drainLoop)

lemma map_of_running_less: "tokens_ok s \<Longrightarrow> map_of (running s) tok = Some f \<Longrightarrow> tok < nextTok s"
  by (auto simp: tokens_ok_def dest!: map_of_SomeD)

lemma tokens_ok_settle: "tokens_ok s \<Longrightarrow> tokens_ok (settle tok oc s)"
proof -
  assume ok: "tokens_ok s"
  show ?thesis
  proof (cases "map_of (running s) tok")
    case None
    then show ?thesis using ok by (simp add: settle_def)
  next
    case (Some f)
    then have lt: "tok < nextTok s" using ok by (rule map_of_running_less[rotated])
    let ?u = "s\<lparr>running := unrun tok (running s)\<rparr>"
    have u: "tokens_ok ?u" using ok by (rule tokens_ok_unrun)
    show ?thesis
    proof (cases f)
      case Immediate
      have "tokens_ok (processQueue (?u\<lparr>currentPlayingId := None\<rparr>))"
        using u by (simp add: tokens_ok_processQueue tokens_ok_current)
      then show ?thesis using Some Immediate lt
        by (cases oc) (simp_all add: settle_def Let_def tokens_ok_trace nextTok_processQueue)
    next
      case Queued
      have "tokens_ok (?u\<lparr>drainResume := True\<rparr>)" using u by (simp add: tokens_ok_drainResume)
      then show ?thesis using Some Queued
        by (cases oc) (auto simp: settle_def tokens_ok_def)
    qed
  qed
qed

lemma tokens_ok_step: "tokens_ok s \<Longrightarrow> tokens_ok (step s ev)"
  by (cases ev)
     (simp_all add: tokens_ok_requestPlay tokens_ok_stopCurrent tokens_ok_settle
        onPlayEnded_def tokens_ok_processQueue tokens_ok_current clearQueue_def
        resumeDrain_def tokens_ok_drainLoop tokens_ok_drainResume,
      simp add: tokens_ok_def)

lemma tokens_ok_run: "tokens_ok s \<Longrightarrow> tokens_ok (run s evs)"
  unfolding run_def by (induction evs arbitrary: s) (simp_all add: tokens_ok_step)

subsection \<open>The draining loop is single-flight\<close>

lemma qcount_append [simp]:
  "length (filter (\<lambda>r. snd r = Queued) (rs @ [(t, f)])) =
   length (filter (\<lambda>r. snd r = Queued) rs) + (if f = Queued then 1 else 0)"
  by simp

lemma drain_ok_drainLoop:
  "qcount s = 0 \<Longrightarrow> \<not> drainResume s \<Longrightarrow> isProcessing s \<Longrightarrow> drain_ok (drainLoop s)"
  by (auto simp: drain_ok_def qcount_def drainLoop_def split: list.splits)

lemma drain_ok_processQueue: "drain_ok s \<Longrightarrow> drain_ok (processQueue s)"
proof -
  assume d: "drain_ok s"
  show ?thesis
  proof (cases "isProcessing s \<or> playQueue s = [] \<or> truthy (currentPlayingId s)")
    case True
    then show ?thesis using d by (simp add: processQueue_def)
  next
    case False
    then have "qcount s = 0" "\<not> drainResume s"
      using d by (auto simp: drain_ok_def split: if_splits)
    then have "drain_ok (drainLoop (s\<lparr>isProcessing := True\<rparr>))"
      by (intro drain_ok_drainLoop) (simp_all add: qcount_def)
    then show ?thesis using False by (simp add: processQueue_def)
  qed
qed

lemma drain_ok_current: "drain_ok (s\<lparr>currentPlayingId := c\<rparr>) = drain_ok s"
  by (simp add: drain_ok_def qcount_def)

lemma drain_ok_trace: "drain_ok (s\<lparr>trace := t\<rparr>) = drain_ok s"
  by (simp add: drain_ok_def qcount_def)

lemma drain_ok_requestPlay: "drain_ok s \<Longrightarrow> drain_ok (requestPlay i s)"
  by (auto simp: requestPlay_def startImmediate_def stopCurrent_def drain_ok_def qcount_def
        split: if_splits)

lemma filter_unrun_other:
  "distinct (map fst rs) \<Longrightarrow> map_of rs tok = Some Immediate \<Longrightarrow>
   filter (\<lambda>r. snd r = Queued) (unrun tok rs) = filter (\<lambda>r. snd r = Queued) rs"
  unfolding unrun_def
proof (induction rs)
  case Nil
  then show ?case by simp
next
  case (Cons r rs)
  obtain t f where r: "r = (t, f)" by (cases r)
  show ?case
  proof (cases "t = tok")
    case True
    with Cons.prems r have "f = Immediate" by simp
    moreover have "filter (\<lambda>r. fst r \<noteq> tok) rs = rs"
      using Cons.prems True r by (auto simp: filter_id_conv)
    ultimately show ?thesis using True r by simp
  next
    case False
    with Cons r show ?thesis by simp
  qed
qed

lemma filter_unrun_queued:
  "distinct (map fst rs) \<Longrightarrow> map_of rs tok = Some Queued \<Longrightarrow>
   Suc (length (filter (\<lambda>r. snd r = Queued) (unrun tok rs))) = length (filter (\<lambda>r. snd r = Queued) rs)"
  unfolding unrun_def
proof (induction rs)
  case Nil
  then show ?case by simp
next
  case (Cons r rs)
  obtain t f where r: "r = (t, f)" by (cases r)
  show ?case
  proof (cases "t = tok")
    case True
    with Cons.prems r have "f = Queued" by simp
    moreover have "filter (\<lambda>r. fst r \<noteq> tok) rs = rs"
      using Cons.prems True r by (auto simp: filter_id_conv)
    ultimately show ?thesis using True r by simp
  next
    case False
    with Cons r show ?thesis by simp
  qed
qed

lemma drain_ok_settle: "tokens_ok s \<Longrightarrow> drain_ok s \<Longrightarrow> drain_ok (settle tok oc s)"
proof -
  assume ok: "tokens_ok s" and d: "drain_ok s"
  have dist: "distinct (map fst (running s))" using ok by (simp add: tokens_ok_def)
  show ?thesis
  proof (cases "map_of (running s) tok")
    case None
    then show ?thesis using d by (simp add: settle_def)
  next
    case (Some f)
    show ?thesis
    proof (cases f)
      case Immediate
      have "drain_ok (s\<lparr>running := unrun tok (running s), currentPlayingId := None\<rparr>)"
        using d filter_unrun_other[OF dist Some[unfolded Immediate]]
        by (simp add: drain_ok_def qcount_def)
      then have "drain_ok (processQueue (s\<lparr>running := unrun tok (running s), currentPlayingId := None\<rparr>))"
        by (rule drain_ok_processQueue)
      then show ?thesis using Some Immediate
        by (simp add: settle_def Let_def drain_ok_trace)
    next
      case Queued
      from filter_unrun_queued[OF dist Some[unfolded Queued]] d
      show ?thesis using Some Queued
        by (auto simp: settle_def drain_ok_def qcount_def split: if_splits)
    qed
  qed
qed

lemma drain_ok_resumeDrain: "drain_ok s \<Longrightarrow> drain_ok (resumeDrain s)"
proof (cases "drainResume s")
  case False
  assume "drain_ok s"
  with False show ?thesis by (simp add: resumeDrain_def)
next
  case True
  assume d: "drain_ok s"
  with True have "qcount s = 0" "isProcessing s"
    by (auto simp: drain_ok_def split: if_splits)
  then have "drain_ok (drainLoop (s\<lparr>drainResume := False, currentPlayingId := None\<rparr>))"
    by (intro drain_ok_drainLoop) (simp_all add: qcount_def)
  with True show ?thesis by (simp add: resumeDrain_def)
qed

lemma drain_ok_step: "tokens_ok s \<Longrightarrow> drain_ok s \<Longrightarrow> drain_ok (step s ev)"
proof (cases ev)
  case (RequestPlay i)
  assume "drain_ok s"
  then show ?thesis using RequestPlay by (simp add: drain_ok_requestPlay)
next
  case StopCurrent
  assume "drain_ok s"
  then show ?thesis using StopCurrent
    by (auto simp: stopCurrent_def drain_ok_def qcount_def split: if_splits)
next
  case (OnPlayEnded i)
  assume "drain_ok s"
  then show ?thesis using OnPlayEnded
    by (simp add: onPlayEnded_def drain_ok_processQueue drain_ok_current)
next
  case ClearQueue
  assume "drain_ok s"
  then show ?thesis using ClearQueue by (simp add: clearQueue_def drain_ok_def qcount_def)
next
  case (Settle tok oc)
  assume "tokens_ok s" "drain_ok s"
  then show ?thesis using Settle by (simp add: drain_ok_settle)
next
  case ResumeDrain
  assume "drain_ok s"
  then show ?thesis using ResumeDrain by (simp add: drain_ok_resumeDrain)
qed

lemma drain_ok_run: "tokens_ok s \<Longrightarrow> drain_ok s \<Longrightarrow> drain_ok (run s evs)"
  unfolding run_def
  by (induction evs arbitrary: s) (simp_all add: drain_ok_step tokens_ok_step)

lemma drain_ok_init: "drain_ok init"
  by (simp add: drain_ok_def qcount_def init_def)

lemma queued_single_flight: "qcount (run init evs) \<le> 1"
  using drain_ok_run[OF tokens_ok_init drain_ok_init, of evs]
  by (simp add: drain_ok_def split: if_splits)

subsection \<open>Runs without preemption\<close>

lemma serial_init: "serial init"
  by (simp add: serial_def init_def)

lemma serial_requestPlay:
  "serial s \<Longrightarrow> i \<noteq> [] \<Longrightarrow> currentPlayingId s \<noteq> Some i \<Longrightarrow> serial (requestPlay i s)"
  unfolding serial_def requestPlay_def startImmediate_def
  by (cases "truthy (currentPlayingId s)") auto

lemma serial_drainLoop:
  "\<forall>q \<in> set (playQueue s). fst q \<noteq> [] \<Longrightarrow> running s = [] \<Longrightarrow> \<not> drainResume s \<Longrightarrow>
   isProcessing s \<Longrightarrow> currentPlayingId s = None \<Longrightarrow> serial (drainLoop s)"
  by (auto simp: serial_def drainLoop_def split: list.splits)

lemma serial_processQueue:
  "\<forall>q \<in> set (playQueue s). fst q \<noteq> [] \<Longrightarrow> running s = [] \<Longrightarrow> \<not> drainResume s \<Longrightarrow>
   \<not> isProcessing s \<Longrightarrow> currentPlayingId s = None \<Longrightarrow> serial (processQueue s)"
proof (cases "playQueue s = []")
  case True
  assume "running s = []" "\<not> drainResume s" "\<not> isProcessing s"
  with True show ?thesis by (simp add: processQueue_def serial_def)
next
  case False
  assume a: "\<forall>q \<in> set (playQueue s). fst q \<noteq> []" "running s = []" "\<not> drainResume s"
    "\<not> isProcessing s" "currentPlayingId s = None"
  then have "serial (drainLoop (s\<lparr>isProcessing := True\<rparr>))"
    by (intro serial_drainLoop) simp_all
  with False a show ?thesis by (simp add: processQueue_def)
qed

lemma serial_trace: "serial (s\<lparr>trace := t\<rparr>) = serial s"
  by (simp add: serial_def)

lemma serial_settle: "serial s \<Longrightarrow> serial (settle tok oc s)"
proof -
  assume ser: "serial s"
  then have q: "\<forall>q \<in> set (playQueue s). fst q \<noteq> []" by (simp add: serial_def)
  show ?thesis
  proof (cases "map_of (running s) tok")
    case None
    then show ?thesis using ser by (simp add: settle_def)
  next
    case (Some f)
    then have ne: "running s \<noteq> []" by auto
    show ?thesis
    proof (cases f)
      case Immediate
      with Some ser ne have r: "running s = [(tok, Immediate)]" "\<not> isProcessing s" "\<not> drainResume s"
        by (auto simp: serial_def split: if_splits)
      have "serial (processQueue (s\<lparr>running := unrun tok (running s), currentPlayingId := None\<rparr>))"
        using q r by (intro serial_processQueue) (simp_all add: unrun_def)
      then show ?thesis using Some Immediate by (simp add: settle_def Let_def serial_trace)
    next
      case Queued
      with Some ser ne have r: "running s = [(tok, Queued)]" "isProcessing s"
         "truthy (currentPlayingId s)"
        by (auto simp: serial_def split: if_splits)
      then show ?thesis using Some Queued q
        by (simp add: settle_def serial_def unrun_def)
    qed
  qed
qed

lemma serial_resumeDrain: "serial s \<Longrightarrow> serial (resumeDrain s)"
proof (cases "drainResume s")
  case False
  assume "serial s"
  with False show ?thesis by (simp add: resumeDrain_def)
next
  case True
  assume ser: "serial s"
  with True have "running s = []" "isProcessing s" "\<forall>q \<in> set (playQueue s). fst q \<noteq> []"
    by (auto simp: serial_def)
  then have "serial (drainLoop (s\<lparr>drainResume := False, currentPlayingId := None\<rparr>))"
    by (intro serial_drainLoop) simp_all
  with True show ?thesis by (simp add: resumeDrain_def)
qed

lemma serial_step: "serial s \<Longrightarrow> allowed s ev \<Longrightarrow> serial (step s ev)"
proof (cases ev)
  case (RequestPlay i)
  assume "serial s" "allowed s ev"
  with RequestPlay show ?thesis by (simp add: serial_requestPlay)
next
  case StopCurrent
  assume "serial s" "allowed s ev"
  with StopCurrent show ?thesis by (simp add: stopCurrent_def)
next
  case (OnPlayEnded i)
  assume "serial s" "allowed s ev"
  with OnPlayEnded show ?thesis by (simp add: onPlayEnded_def)
next
  case ClearQueue
  assume "serial s"
  with ClearQueue show ?thesis by (simp add: clearQueue_def serial_def)
next
  case (Settle tok oc)
  assume "serial s"
  with Settle show ?thesis by (simp add: serial_settle)
next
  case ResumeDrain
  assume "serial s"
  with ResumeDrain show ?thesis by (simp add: serial_resumeDrain)
qed

lemma serial_run: "serial s \<Longrightarrow> unpreempted s evs \<Longrightarrow> serial (run s evs)"
  unfolding run_def
  by (induction evs arbitrary: s) (simp_all add: serial_step)

lemma serial_length: "serial s \<Longrightarrow> length (running s) \<le> 1"
  by (auto simp: serial_def)

text \<open>
  C1 (as amended). For every interleaving of calls of \<open>requestPlay\<close>, \<open>stopCurrent\<close>,
  \<open>onPlayEnded\<close> and \<open>clearQueue\<close> with settlings of actions and resumptions of the draining
  loop, at most one identity is recorded as currently playing, and at most one action started
  by queue draining is running. In every interleaving without preemption (each \<open>requestPlay\<close>
  carries a non-empty identity other than the recorded one, \<open>stopCurrent\<close> and
  \<open>onPlayEnded\<close> are called only where they change nothing) at most one action is running
  at any instant: an action that was started settles before the next one starts.
\<close>

theorem arbiter_single_flight:
  "(\<forall>i j. isPlaying i (run init evs) \<and> isPlaying j (run init evs) \<longrightarrow> i = j)
   \<and> length (filter (\<lambda>r. snd r = Queued) (running (run init evs))) \<le> 1
   \<and> (unpreempted init evs \<longrightarrow> length (running (run init evs)) \<le> 1)"
proof (intro conjI impI allI)
  fix i j
  assume "isPlaying i (run init evs) \<and> isPlaying j (run init evs)"
  then show "i = j" by (auto simp: isPlaying_def)
next
  show "length (filter (\<lambda>r. snd r = Queued) (running (run init evs))) \<le> 1"
    using queued_single_flight[of evs] by (simp add: qcount_def)
next
  assume "unpreempted init evs"
  then show "length (running (run init evs)) \<le> 1"
    by (intro serial_length serial_run serial_init)
qed

text \<open>
  A run without preemption: \<open>a\<close> plays, \<open>b\<close> is queued, \<open>a\<close> settles and the
  loop starts \<open>b\<close>.
\<close>

theorem arbiter_single_flight_witness:
  "unpreempted init [RequestPlay (asc ''a''), RequestPlay (asc ''b''), Settle 0 Fulfilled]
   \<and> running (run init [RequestPlay (asc ''a''), RequestPlay (asc ''b''), Settle 0 Fulfilled])
       = [(1, Queued)]
   \<and> length (running (run init [RequestPlay (asc ''a''), RequestPlay (asc ''b''), Settle 0 Fulfilled])) \<le> 1"
  using arbiter_single_flight[of "[RequestPlay (asc ''a''), RequestPlay (asc ''b''), Settle 0 Fulfilled]"]
  by (simp add: run_def init_def requestPlay_def startImmediate_def settle_def unrun_def
      processQueue_def drainLoop_def asc_def)

text \<open>
  The claim C1 as stated fails for a retrigger: a second \<open>requestPlay\<close> of the identity
  that is playing emits the stop notification and starts its action at once, while the first
  action has not settled. Two actions are then running.
\<close>

theorem arbiter_overlap_counterexample:
  "\<not> length (running (run init [RequestPlay (asc ''a''), RequestPlay (asc ''a'')])) \<le> 1
   \<and> running (run init [RequestPlay (asc ''a''), RequestPlay (asc ''a'')])
     = [(0, Immediate), (1, Immediate)]
   \<and> trace (run init [RequestPlay (asc ''a''), RequestPlay (asc ''a'')])
     = [ActionStarted (asc ''a'') 0, StopNotification (asc ''a''), ActionStarted (asc ''a'') 1]"
  by (simp add: run_def init_def requestPlay_def startImmediate_def stopCurrent_def asc_def)

subsection \<open>Propagation of errors\<close>

lemma map_of_snoc_keep: "map_of rs t = Some f \<Longrightarrow> map_of (rs @ [x]) t = Some f"
  by (simp add: map_add_def)

lemma map_of_snoc_other: "fst x \<noteq> t \<Longrightarrow> map_of (rs @ [x]) t = map_of rs t"
  by (cases x) (auto simp: map_add_def split: option.splits)

lemma map_of_unrun_other: "t \<noteq> tok \<Longrightarrow> map_of (unrun tok rs) t = map_of rs t"
  unfolding unrun_def by (induction rs) auto

lemma running_drainLoop:
  "running (drainLoop s) = running s \<or> (\<exists>t. running (drainLoop s) = running s @ [(t, Queued)])"
  by (auto simp: drainLoop_def split: list.splits)

lemma running_processQueue:
  "running (processQueue s) = running s \<or> (\<exists>t. running (processQueue s) = running s @ [(t, Queued)])"
  using running_drainLoop[of "s\<lparr>isProcessing := True\<rparr>"]
  by (auto simp: processQueue_def)

lemma trace_drainLoop:
  "trace (drainLoop s) = trace s \<or> (\<exists>j t. trace (drainLoop s) = trace s @ [ActionStarted j t])"
  by (auto simp: drainLoop_def split: list.splits)

lemma trace_processQueue:
  "trace (processQueue s) = trace s \<or> (\<exists>j t. trace (processQueue s) = trace s @ [ActionStarted j t])"
  using trace_drainLoop[of "s\<lparr>isProcessing := True\<rparr>"]
  by (auto simp: processQueue_def)

lemma awaited_drainLoop: "awaited t f s \<Longrightarrow> awaited t f (drainLoop s)"
  using running_drainLoop[of s] by (auto simp: awaited_def map_of_snoc_keep)

lemma awaited_processQueue: "awaited t f s \<Longrightarrow> awaited t f (processQueue s)"
  using running_processQueue[of s] by (auto simp: awaited_def map_of_snoc_keep)

lemma awaited_upd [simp]:
  "awaited t f (s\<lparr>currentPlayingId := c\<rparr>) = awaited t f s"
  "awaited t f (s\<lparr>trace := tr\<rparr>) = awaited t f s"
  "awaited t f (s\<lparr>drainResume := b\<rparr>) = awaited t f s"
  "awaited t f (s\<lparr>isProcessing := b\<rparr>) = awaited t f s"
  "awaited t f (s\<lparr>playQueue := q\<rparr>) = awaited t f s"
  "awaited t f (s\<lparr>nextTok := n\<rparr>) = awaited t f s"
  by (simp_all add: awaited_def)

lemma awaited_requestPlay: "awaited t f s \<Longrightarrow> awaited t f (requestPlay i s)"
  by (auto simp: requestPlay_def startImmediate_def stopCurrent_def awaited_def map_of_snoc_keep)

lemma awaited_settle: "awaited t f s \<Longrightarrow> t \<noteq> tok \<Longrightarrow> awaited t f (settle tok oc s)"
proof -
  assume a: "awaited t f s" and ne: "t \<noteq> tok"
  let ?u = "s\<lparr>running := unrun tok (running s), currentPlayingId := None\<rparr>"
  have u: "awaited t f ?u" using a ne by (simp add: awaited_def map_of_unrun_other)
  then have "awaited t f (processQueue ?u)" by (rule awaited_processQueue)
  then show ?thesis using a u
    by (auto simp: settle_def Let_def awaited_def split: option.splits frame.splits)
qed

lemma awaited_step:
  "awaited t f s \<Longrightarrow> \<forall>oc. ev \<noteq> Settle t oc \<Longrightarrow> awaited t f (step s ev)"
proof (cases ev)
  case (Settle tok oc)
  assume "awaited t f s" "\<forall>oc. ev \<noteq> Settle t oc"
  with Settle show ?thesis by (auto simp: awaited_settle)
qed (simp_all add: awaited_requestPlay stopCurrent_def onPlayEnded_def awaited_processQueue
      clearQueue_def resumeDrain_def awaited_drainLoop)

lemma awaited_run:
  "awaited t f s \<Longrightarrow> \<forall>oc. Settle t oc \<notin> set evs \<Longrightarrow> awaited t f (run s evs)"
  unfolding run_def
proof (induction evs arbitrary: s)
  case Nil
  then show ?case by simp
next
  case (Cons ev evs)
  from Cons.prems have "awaited t f (step s ev)" by (intro awaited_step) auto
  with Cons show ?case by simp
qed

lemma settle_immediate_rejected:
  assumes "awaited tok Immediate s"
  shows "\<exists>started. trace (settle tok (Rejected e) s) = trace s @ started @ [CallRejected tok e]
           \<and> (\<forall>x \<in> set started. \<exists>j t. x = ActionStarted j t)"
proof -
  let ?u = "s\<lparr>running := unrun tok (running s), currentPlayingId := None\<rparr>"
  have t: "trace (settle tok (Rejected e) s) = trace (processQueue ?u) @ [CallRejected tok e]"
    using assms by (simp add: settle_def awaited_def Let_def)
  from trace_processQueue[of ?u] show ?thesis
  proof
    assume "trace (processQueue ?u) = trace ?u"
    with t have "trace (settle tok (Rejected e) s) = trace s @ [] @ [CallRejected tok e]" by simp
    then show ?thesis by (intro exI[of _ "[]"]) simp
  next
    assume "\<exists>j t. trace (processQueue ?u) = trace ?u @ [ActionStarted j t]"
    then obtain j t' where "trace (processQueue ?u) = trace ?u @ [ActionStarted j t']" by blast
    with t have "trace (settle tok (Rejected e) s) = trace s @ [ActionStarted j t'] @ [CallRejected tok e]"
      by simp
    then show ?thesis by (intro exI[of _ "[ActionStarted j t']"]) simp
  qed
qed

lemma swallowed_drainLoop: "swallowed t s \<Longrightarrow> swallowed t (drainLoop s)"
  by (auto simp: swallowed_def drainLoop_def map_add_def split: list.splits option.splits)

lemma swallowed_upd [simp]:
  "swallowed t (s\<lparr>currentPlayingId := c\<rparr>) = swallowed t s"
  "swallowed t (s\<lparr>drainResume := b\<rparr>) = swallowed t s"
  "swallowed t (s\<lparr>isProcessing := b\<rparr>) = swallowed t s"
  "swallowed t (s\<lparr>playQueue := q\<rparr>) = swallowed t s"
  by (simp_all add: swallowed_def)

lemma swallowed_processQueue: "swallowed t s \<Longrightarrow> swallowed t (processQueue s)"
  by (simp add: processQueue_def swallowed_drainLoop)

lemma swallowed_stopCurrent: "swallowed t s \<Longrightarrow> swallowed t (stopCurrent s)"
  by (auto simp: swallowed_def stopCurrent_def)

lemma swallowed_startImmediate: "swallowed t s \<Longrightarrow> swallowed t (startImmediate i s)"
  by (auto simp: swallowed_def startImmediate_def map_add_def split: option.splits)

lemma swallowed_requestPlay: "swallowed t s \<Longrightarrow> swallowed t (requestPlay i s)"
  unfolding requestPlay_def
  by (auto simp: swallowed_startImmediate swallowed_stopCurrent)
     (simp add: swallowed_def)

lemma swallowed_settle: "swallowed t s \<Longrightarrow> swallowed t (settle tok oc s)"
proof (cases "map_of (running s) tok")
  case None
  assume "swallowed t s"
  with None show ?thesis by (simp add: settle_def)
next
  case (Some f)
  assume sw: "swallowed t s"
  show ?thesis
  proof (cases f)
    case Queued
    have "map_of (unrun tok (running s)) t \<noteq> Some Immediate"
    proof (cases "t = tok")
      case True
      then show ?thesis by (auto simp: unrun_def dest!: map_of_SomeD)
    next
      case False
      then show ?thesis using sw by (simp add: map_of_unrun_other swallowed_def)
    qed
    then show ?thesis using sw Some Queued
      by (cases oc) (simp_all add: settle_def swallowed_def)
  next
    case Immediate
    with Some sw have ne: "t \<noteq> tok" by (auto simp: swallowed_def)
    let ?u = "s\<lparr>running := unrun tok (running s), currentPlayingId := None\<rparr>"
    have "swallowed t (s\<lparr>running := unrun tok (running s)\<rparr>)"
      using sw ne by (simp add: swallowed_def map_of_unrun_other)
    then have "swallowed t (processQueue ?u)" by (simp add: swallowed_processQueue)
    then show ?thesis using Some Immediate ne
      by (cases oc) (simp_all add: settle_def Let_def swallowed_def)
  qed
qed

lemma swallowed_step: "swallowed t s \<Longrightarrow> swallowed t (step s ev)"
  by (cases ev)
     (simp_all add: swallowed_requestPlay swallowed_stopCurrent onPlayEnded_def
        swallowed_processQueue clearQueue_def swallowed_settle resumeDrain_def swallowed_drainLoop)

lemma swallowed_run: "swallowed t s \<Longrightarrow> swallowed t (run s evs)"
  unfolding run_def by (induction evs arbitrary: s) (simp_all add: swallowed_step)

lemma fresh_token: "tokens_ok s \<Longrightarrow> map_of (running s) (nextTok s) = None"
  by (force simp: tokens_ok_def map_of_eq_None_iff)

lemma swallowed_enqueue:
  assumes "tokens_ok s" "truthy (currentPlayingId s)" "currentPlayingId s \<noteq> Some i"
  shows "swallowed (nextTok s) (requestPlay i s)"
  using assms fresh_token[OF assms(1)]
  by (auto simp: requestPlay_def swallowed_def tokens_ok_def)

lemma awaited_immediate:
  assumes "tokens_ok s" "\<not> truthy (currentPlayingId s) \<or> currentPlayingId s = Some i"
  shows "awaited (nextTok s) Immediate (requestPlay i s)"
  using assms fresh_token[OF assms(1)]
  by (auto simp: requestPlay_def startImmediate_def stopCurrent_def awaited_def map_add_def)

text \<open>
  C4. Let \<open>requestPlay i\<close> be called in a reachable state \<open>s\<close>, and let \<open>tok\<close> name
  the call. If nothing is playing or \<open>i\<close> is the identity that is playing, the action runs on
  the immediate path, and whatever happens before it settles, its rejection with \<open>e\<close>
  rejects the caller's promise with \<open>e\<close> (after the \<open>finally\<close> block, which may start
  the next queued action). Otherwise the request is only pushed onto the queue; after any
  further events no rejection of the caller's promise is recorded and the action does not
  run on the immediate path, and when it runs for the draining loop and rejects with \<open>e\<close>,
  the error is logged and the caller's promise is fulfilled.
\<close>

theorem requestPlay_error_asymmetry:
  assumes "s = run init evs" and "tok = nextTok s" and "s2 = run (requestPlay i s) evs2"
  shows "(\<not> truthy (currentPlayingId s) \<or> currentPlayingId s = Some i \<longrightarrow>
            (\<forall>oc. Settle tok oc \<notin> set evs2) \<longrightarrow>
            (\<exists>started. trace (step s2 (Settle tok (Rejected e)))
                          = trace s2 @ started @ [CallRejected tok e]
                \<and> (\<forall>x \<in> set started. \<exists>j t. x = ActionStarted j t)))
       \<and> (truthy (currentPlayingId s) \<and> currentPlayingId s \<noteq> Some i \<longrightarrow>
            requestPlay i s = s\<lparr>playQueue := playQueue s @ [(i, tok)], nextTok := Suc tok\<rparr>
            \<and> (\<forall>e'. CallRejected tok e' \<notin> set (trace s2))
            \<and> map_of (running s2) tok \<noteq> Some Immediate
            \<and> (map_of (running s2) tok = Some Queued \<longrightarrow>
                 trace (step s2 (Settle tok (Rejected e))) = trace s2 @ [Logged e, CallResolved tok]))"
proof (intro conjI impI)
  have ok: "tokens_ok s" using assms(1) by (simp add: tokens_ok_run tokens_ok_init)
  {
    assume "\<not> truthy (currentPlayingId s) \<or> currentPlayingId s = Some i"
      and "\<forall>oc. Settle tok oc \<notin> set evs2"
    then have "awaited tok Immediate s2"
      unfolding assms(3) assms(2) using ok by (intro awaited_run awaited_immediate)
    then show "\<exists>started. trace (step s2 (Settle tok (Rejected e)))
                          = trace s2 @ started @ [CallRejected tok e]
                \<and> (\<forall>x \<in> set started. \<exists>j t. x = ActionStarted j t)"
      using settle_immediate_rejected[of tok s2 e] by simp
  }
  assume q: "truthy (currentPlayingId s) \<and> currentPlayingId s \<noteq> Some i"
  then show "requestPlay i s = s\<lparr>playQueue := playQueue s @ [(i, tok)], nextTok := Suc tok\<rparr>"
    by (simp add: requestPlay_def assms(2))
  have sw: "swallowed tok s2"
    unfolding assms(3) assms(2) using ok q by (intro swallowed_run swallowed_enqueue) simp_all
  then show "\<forall>e'. CallRejected tok e' \<notin> set (trace s2)" by (simp add: swallowed_def)
  from sw show "map_of (running s2) tok \<noteq> Some Immediate" by (simp add: swallowed_def)
  assume "map_of (running s2) tok = Some Queued"
  then show "trace (step s2 (Settle tok (Rejected e))) = trace s2 @ [Logged e, CallResolved tok]"
    by (simp add: settle_def)
qed

lemmas arbiter_eval =
  run_def init_def requestPlay_def startImmediate_def stopCurrent_def settle_def unrun_def
  processQueue_def drainLoop_def resumeDrain_def onPlayEnded_def clearQueue_def asc_def

text \<open>
  Both paths at concrete runs: \<open>a\<close> plays at once and rejects; \<open>b\<close> is queued behind
  \<open>a\<close>, is started by the loop and rejects.
\<close>

theorem requestPlay_error_asymmetry_witness:
  "\<not> truthy (currentPlayingId (run init []))
   \<and> trace (run init [RequestPlay (asc ''a''), RequestPlay (asc ''b''),
                       Settle 0 (Rejected (Error (asc ''boom'')))])
       = [ActionStarted (asc ''a'') 0, ActionStarted (asc ''b'') 1,
          CallRejected 0 (Error (asc ''boom''))]
   \<and> truthy (currentPlayingId (run init [RequestPlay (asc ''a'')]))
   \<and> currentPlayingId (run init [RequestPlay (asc ''a'')]) \<noteq> Some (asc ''b'')
   \<and> map_of (running (run init [RequestPlay (asc ''a''), RequestPlay (asc ''b''),
                                   Settle 0 Fulfilled])) 1 = Some Queued
   \<and> trace (run init [RequestPlay (asc ''a''), RequestPlay (asc ''b''), Settle 0 Fulfilled,
                       Settle 1 (Rejected (Error (asc ''boom'')))])
       = [ActionStarted (asc ''a'') 0, ActionStarted (asc ''b'') 1, CallResolved 0,
          Logged (Error (asc ''boom'')), CallResolved 1]"
proof -
  note imm = requestPlay_error_asymmetry[where evs = "[]" and i = "asc ''a''"
      and ?evs2.0 = "[RequestPlay (asc ''b'')]" and e = "Error (asc ''boom'')", OF refl refl refl]
  note que = requestPlay_error_asymmetry[where evs = "[RequestPlay (asc ''a'')]" and i = "asc ''b''"
      and ?evs2.0 = "[Settle 0 Fulfilled]" and e = "Error (asc ''boom'')", OF refl refl refl]
  show ?thesis
    using imm que by (simp add: arbiter_eval)
qed

text \<open>
  A retrigger of an identity that the field holds and that is truthy (not the empty
  string): \<open>stopCurrent\<close> emits one stop notification carrying the identity, and the call
  proceeds exactly as on the state that \<open>stopCurrent\<close> leaves, where nothing is playing.
\<close>

lemma retrigger_truthy_identity:
  assumes "currentPlayingId s = Some i" and "truthy (currentPlayingId s)"
  shows "trace (stopCurrent s) = trace s @ [StopNotification i]
       \<and> currentPlayingId (stopCurrent s) = None
       \<and> requestPlay i s = requestPlay i (stopCurrent s)
       \<and> requestPlay i s = startImmediate i (stopCurrent s)
       \<and> trace (requestPlay i s) = trace s @ [StopNotification i, ActionStarted i (nextTok s)]
       \<and> running (requestPlay i s) = running s @ [(nextTok s, Immediate)]
       \<and> currentPlayingId (requestPlay i s) = Some i
       \<and> playQueue (requestPlay i s) = playQueue s"
  using assms by (simp add: requestPlay_def stopCurrent_def startImmediate_def)


section \<open>Properties of the synthesis client\<close>

subsection \<open>Transport\<close>

lemma attempt_ok: "attempt oc = Inr r \<Longrightarrow> ok r"
  by (auto simp: attempt_def split: fetch_outcome.splits if_splits)

lemma requestWithRetry_ok: "requestWithRetry net n = (Inr r, fx) \<Longrightarrow> ok r"
proof (induction net n arbitrary: fx rule: requestWithRetry.induct)
  case (1 net n)
  show ?case
  proof (cases "attempt (net n)")
    case (Inr r')
    with "1.prems" have "r' = r" by (simp add: requestWithRetry.simps[of net n])
    with Inr show ?thesis by (simp add: attempt_ok)
  next
    case (Inl e)
    show ?thesis
    proof (cases "n < retryCount \<and> \<not> isConfigurationError e")
      case True
      obtain res fx' where rec: "requestWithRetry net (n + 1) = (res, fx')"
        by (cases "requestWithRetry net (n + 1)")
      with "1.prems" Inl True have "res = Inr r"
        by (simp add: requestWithRetry.simps[of net n])
      with "1.IH"[OF Inl True] rec show ?thesis by simp
    next
      case False
      with "1.prems" Inl show ?thesis by (auto simp: requestWithRetry.simps[of net n])
    qed
  qed
qed


lemma startsWith_toLowerCase:
  "lowerWord w \<Longrightarrow> startsWith (toLowerCase t) w = spelledAt w t"
proof (induction w t rule: spelledAt.induct)
  case (1 t)
  then show ?case by (simp add: startsWith_def)
next
  case (2 w ws)
  then show ?case by (simp add: startsWith_def toLowerCase_def)
next
  case (3 w ws c cs)
  from "3.prems" have lw: "lowerWord ws" and w: "w < 65 \<or> 90 < w"
    by (simp_all add: lowerWord_def)
  have "((if 65 \<le> c \<and> c \<le> 90 then c + 32 else c) = w) = sameLetter w c"
    using w by (auto simp: sameLetter_def)
  then show ?case
    using "3.IH"[OF lw] by (auto simp: startsWith_def toLowerCase_def)
qed

lemma includesStr_toLowerCase:
  "lowerWord w \<Longrightarrow> includesStr (toLowerCase t) w = mentions t w"
proof (induction t)
  case Nil
  then show ?case by (cases w) (simp_all add: toLowerCase_def)
next
  case (Cons c cs)
  have "includesStr (toLowerCase (c # cs)) w
      = (startsWith (toLowerCase (c # cs)) w \<or> includesStr (toLowerCase cs) w)"
    by (simp add: toLowerCase_def)
  then show ?case
    using Cons startsWith_toLowerCase[of w "c # cs"] by simp
qed

lemma isConfigurationError_words:
  "isConfigurationError e = indicatesConfigurationError (message e)"
  by (simp add: isConfigurationError_def indicatesConfigurationError_def Let_def
      includesStr_toLowerCase lowerWord_def asc_def)


subsection \<open>From the response to the result\<close>

lemma trim_Nil [simp]: "trim [] = []"
  by (simp add: trim_def)

lemma synthesize_valid:
  "validateConfig cfg \<Longrightarrow> validRequest request \<Longrightarrow>
   synthesize cfg parse now net request =
     (case synthesizeTry parse now net request of
        (None, fx) \<Rightarrow> (Pending, fx)
      | (Some (Inl e), fx) \<Rightarrow> (Resolves (failed (handleApiError e)), fx)
      | (Some (Inr r), fx) \<Rightarrow> (Resolves r, fx))"
  by (auto simp: synthesize_def validRequest_def)

lemma synthesizeTry_effects: "snd (synthesizeTry parse now net request) = snd (requestWithRetry net 1)"
  by (auto simp: synthesizeTry_def split: prod.splits sum.splits body_read.splits)

lemma synthesizeTry_transport_error:
  "requestWithRetry net 1 = (Inl e, fx) \<Longrightarrow>
   synthesizeTry parse now net request = (Some (Inl e), fx)"
  by (simp add: synthesizeTry_def)

lemma synthesizeTry_body:
  "requestWithRetry net 1 = (Inr resp, fx) \<Longrightarrow> bodyText resp = BodyText body \<Longrightarrow>
   synthesizeTry parse now net request = (Some (assemble parse now body), fx)"
  using requestWithRetry_ok[of net 1 resp fx] by (simp add: synthesizeTry_def)

lemma synthesizeTry_stalled:
  "requestWithRetry net 1 = (Inr resp, fx) \<Longrightarrow> bodyText resp = BodyNeverSettles \<Longrightarrow>
   synthesizeTry parse now net request = (None, fx)"
  by (simp add: synthesizeTry_def)

lemma synthesize_body:
  assumes "validateConfig cfg" "validRequest request"
    and "requestWithRetry net 1 = (Inr resp, fx)" "bodyText resp = BodyText body"
  shows "synthesize cfg parse now net request =
     (case assemble parse now body of
        Inl e \<Rightarrow> (Resolves (failed (handleApiError e)), fx)
      | Inr r \<Rightarrow> (Resolves r, fx))"
  using assms by (simp add: synthesize_valid synthesizeTry_body split: sum.splits)

lemma parseLine_tolerated:
  "parse line = Inr r \<Longrightarrow> 0 \<le> frag_code r \<Longrightarrow> parseLine parse i line = Inr r"
  by (simp add: parseLine_def)

lemma parseLine_negative:
  "parse line = Inr r \<Longrightarrow> frag_code r < 0 \<Longrightarrow>
   parseLine parse i line =
     Inl (Error (MSG_LINE @ numToString (int i + 1) @ MSG_LINE_FAILED @ apiErrorMessage r))"
  by (simp add: parseLine_def Error_def)

lemma collect_tolerated:
  "map (\<lambda>l. parse (trim l)) ls = map Inr frs \<Longrightarrow> \<forall>r \<in> set frs. 0 \<le> frag_code r \<Longrightarrow>
   collect parse i (ls @ rest) parts fin =
     collect parse (i + length ls) rest (parts @ audioChunks frs)
       (if frs = [] then fin else Some (last frs))"
proof (induction ls arbitrary: frs i parts fin)
  case Nil
  then show ?case by (simp add: audioChunks_def)
next
  case (Cons l ls)
  then obtain r frs' where frs: "frs = r # frs'" by (cases frs) auto
  with Cons.prems have l: "parse (trim l) = Inr r" "0 \<le> frag_code r"
    and rest: "map (\<lambda>l. parse (trim l)) ls = map Inr frs'" "\<forall>r \<in> set frs'. 0 \<le> frag_code r"
    by simp_all
  show ?case
    using Cons.IH[OF rest] l frs
    by (simp add: parseLine_tolerated audioChunks_def)
qed

lemma collect_all:
  "map (\<lambda>l. parse (trim l)) ls = map Inr frs \<Longrightarrow> \<forall>r \<in> set frs. 0 \<le> frag_code r \<Longrightarrow>
   collect parse 0 ls [] None = Inr (audioChunks frs, if frs = [] then None else Some (last frs))"
  using collect_tolerated[of parse ls frs 0 "[]" "[]" None] by simp

lemma audioChunks_nonempty: "\<exists>r \<in> set frs. hasAudio r \<Longrightarrow> audioChunks frs \<noteq> []"
  by (auto simp: audioChunks_def filter_empty_conv)

lemma concat_audioChunks_nonempty: "\<exists>r \<in> set frs. hasAudio r \<Longrightarrow> concat (audioChunks frs) \<noteq> []"
  by (auto simp: audioChunks_def hasAudio_def split: option.splits)

lemma assemble_lines:
  "trim body \<noteq> [] \<Longrightarrow>
   assemble parse now body =
     (case collect parse 0 (bodyLines body) [] None of
        Inl e \<Rightarrow> Inl e
      | Inr (audioDataParts, finalResult) \<Rightarrow>
          if audioDataParts = [] then singleObject parse now body
          else if (case finalResult of None \<Rightarrow> False
                   | Some r \<Rightarrow> frag_code r \<noteq> 0 \<and> frag_code r \<noteq> 20000000)
          then Inl (Error (orElse (frag_message (the finalResult)) MSG_SYNTHESIS_FAILED))
          else if concat audioDataParts \<noteq> [] then Inr (succeeded (concat audioDataParts) now)
          else Inl (Error MSG_EMPTY_AUDIO))"
  by (auto simp: assemble_def bodyLines_def Let_def split: sum.splits prod.splits option.splits)

lemma assemble_concat:
  assumes "trim body \<noteq> []"
    and "map (\<lambda>l. parse (trim l)) (bodyLines body) = map Inr frs"
    and "\<forall>r \<in> set frs. 0 \<le> frag_code r"
    and "\<exists>r \<in> set frs. hasAudio r"
    and "frag_code (last frs) = 0 \<or> frag_code (last frs) = 20000000"
  shows "assemble parse now body = Inr (succeeded (concat (audioChunks frs)) now)"
proof -
  have ne: "frs \<noteq> []" using assms(4) by auto
  show ?thesis
    using assms(5) ne audioChunks_nonempty[OF assms(4)] concat_audioChunks_nonempty[OF assms(4)]
    by (auto simp: assemble_lines[OF assms(1)] collect_all[OF assms(2,3)])
qed

text \<open>
  C2 (as amended). Let the request pass validation and the transport return a response
  with a non-blank body. If every line of the body parses to a fragment with a non-negative
  code, at least one fragment has a non-empty audio chunk and the last fragment has a success
  code (0 or 20000000), then the call succeeds and its audio is the concatenation of the
  non-empty audio chunks in line order.
\<close>

theorem multi_fragment_concatenation:
  assumes "validateConfig cfg" and "validRequest request"
    and "requestWithRetry net 1 = (Inr resp, fx)" and "bodyText resp = BodyText body"
    and "trim body \<noteq> []"
    and "map (\<lambda>l. parse (trim l)) (bodyLines body) = map Inr frs"
    and "\<forall>r \<in> set frs. 0 \<le> frag_code r"
    and "\<exists>r \<in> set frs. hasAudio r"
    and "frag_code (last frs) = 0 \<or> frag_code (last frs) = 20000000"
  shows "synthesize cfg parse now net request =
           (Resolves (succeeded (concat (audioChunks frs)) now), fx)"
  using assms
  by (simp add: synthesize_body assemble_concat)

subsection \<open>Status codes\<close>

lemma handleApiError_plain:
  "m \<noteq> [] \<Longrightarrow> \<forall>p \<in> set errorTriggers. \<not> includesStr m p \<Longrightarrow> handleApiError (Error m) = m"
  by (simp add: handleApiError_def Error_def errorTriggers_def asc_def)

lemma MSG_LINE_nonempty: "MSG_LINE @ x \<noteq> []"
  by (simp add: MSG_LINE_def)

lemma collect_negative:
  assumes "map (\<lambda>l. parse (trim l)) pre = map Inr frs" and "\<forall>r \<in> set frs. 0 \<le> frag_code r"
    and "parse (trim l) = Inr f" and "frag_code f < 0"
  shows "collect parse 0 (pre @ l # post) [] None =
     Inl (Error (MSG_LINE @ numToString (int (length pre) + 1) @ MSG_LINE_FAILED @ apiErrorMessage f))"
  using collect_tolerated[OF assms(1,2), of 0 "l # post" "[]" None] assms(3,4)
  by (simp add: parseLine_negative)

lemma collect_passed:
  assumes "map (\<lambda>l. parse (trim l)) pre = map Inr frs" and "\<forall>r \<in> set frs. 0 \<le> frag_code r"
    and "parse (trim l) = Inr f" and "0 \<le> frag_code f"
  shows "collect parse 0 (pre @ l # post) [] None =
     collect parse (Suc (length pre)) post (audioChunks (frs @ [f])) (Some f)"
proof -
  have m: "map (\<lambda>l. parse (trim l)) (pre @ [l]) = map Inr (frs @ [f])"
    using assms(1,3) by simp
  have c: "\<forall>r \<in> set (frs @ [f]). 0 \<le> frag_code r"
    using assms(2,4) by simp
  show ?thesis
    using collect_tolerated[OF m c, of 0 post "[]" None] by simp
qed

lemma includesStr_startsWith: "startsWith t p \<Longrightarrow> includesStr t p"
  by (cases t) (simp_all add: startsWith_def)

lemma includesStr_here: "includesStr (p @ ys) p"
  by (rule includesStr_startsWith) (simp add: startsWith_def)

lemma includesStr_append: "includesStr (xs @ p @ ys) p"
proof (induction xs)
  case Nil
  then show ?case by (simp add: includesStr_here)
next
  case (Cons x xs)
  then show ?case by simp
qed

lemma orElse_nonempty: "d \<noteq> [] \<Longrightarrow> orElse x d \<noteq> []"
  by (cases x) auto

lemma MSG_SYNTHESIS_FAILED_nonempty: "MSG_SYNTHESIS_FAILED \<noteq> []"
  by (simp add: MSG_SYNTHESIS_FAILED_def)

text \<open>
  C5 (as amended). Let the request pass validation and the transport return a response with
  a non-blank body, in which the lines before the line \<open>l\<close> parse to fragments with
  non-negative codes and \<open>l\<close> parses to the fragment \<open>f\<close>. Let \<open>msg\<close> be the text that
  names the line and quotes the message of \<open>f\<close> (or \<open>unknown error\<close>) and its code, and
  \<open>final\<close> the message of \<open>f\<close> (or \<open>speech synthesis failed\<close> when it has none).
  If the code of \<open>f\<close> is negative the call fails, whatever the later lines are, with the
  text \<open>handleApiError\<close> gives for \<open>msg\<close>; \<open>msg\<close> contains the message and the decimal
  code of \<open>f\<close>, and it is the failure text itself when it has none of the substrings
  401, 403, 429, 500, network, fetch, which select a fixed text. If the code of \<open>f\<close> is
  non-negative the loop passes the line and goes on with the later ones. If \<open>f\<close> is the
  last fragment, audio was collected and its code is neither 0 nor 20000000, the call fails
  with the text \<open>handleApiError\<close> gives for \<open>final\<close>: \<open>final\<close> itself when it has none
  of the six substrings.
\<close>

theorem upstream_code_handling:
  assumes "validateConfig cfg" and "validRequest request"
    and "requestWithRetry net 1 = (Inr resp, fx)" and "bodyText resp = BodyText body"
    and "trim body \<noteq> []"
    and "bodyLines body = pre @ l # post"
    and "map (\<lambda>l. parse (trim l)) pre = map Inr frs"
    and "\<forall>r \<in> set frs. 0 \<le> frag_code r"
    and "parse (trim l) = Inr f"
    and "msg = MSG_LINE @ numToString (int (length pre) + 1) @ MSG_LINE_FAILED @ MSG_API_ERROR
                 @ orElse (frag_message f) MSG_UNKNOWN @ MSG_CODE @ numToString (frag_code f)
                 @ asc '')''"
    and "final = orElse (frag_message f) MSG_SYNTHESIS_FAILED"
  shows "(frag_code f < 0 \<longrightarrow>
            synthesize cfg parse now net request = (Resolves (failed (handleApiError (Error msg))), fx)
            \<and> includesStr msg (orElse (frag_message f) MSG_UNKNOWN)
            \<and> includesStr msg (numToString (frag_code f))
            \<and> ((\<forall>p \<in> set errorTriggers. \<not> includesStr msg p) \<longrightarrow>
                 synthesize cfg parse now net request = (Resolves (failed msg), fx)))
       \<and> (0 \<le> frag_code f \<longrightarrow>
            collect parse 0 (bodyLines body) [] None =
              collect parse (Suc (length pre)) post (audioChunks (frs @ [f])) (Some f))
       \<and> (0 \<le> frag_code f \<and> frag_code f \<noteq> 0 \<and> frag_code f \<noteq> 20000000 \<and> post = []
            \<and> (\<exists>r \<in> set (frs @ [f]). hasAudio r) \<longrightarrow>
            synthesize cfg parse now net request
              = (Resolves (failed (handleApiError (Error final))), fx)
            \<and> ((\<forall>p \<in> set errorTriggers. \<not> includesStr final p) \<longrightarrow>
                 synthesize cfg parse now net request = (Resolves (failed final), fx)))"
proof (intro conjI impI)
  note syn = synthesize_body[OF assms(1-4)]
  note asm = assemble_lines[OF assms(5)]
  have msg': "msg = MSG_LINE @ numToString (int (length pre) + 1) @ MSG_LINE_FAILED
                 @ apiErrorMessage f"
    by (simp add: assms(10) apiErrorMessage_def)
  {
    assume neg: "frag_code f < 0"
    have "assemble parse now body = Inl (Error msg)"
      using collect_negative[OF assms(7,8,9) neg, of post]
      by (simp add: asm assms(6) msg')
    then show 1: "synthesize cfg parse now net request
        = (Resolves (failed (handleApiError (Error msg))), fx)"
      by (simp add: syn)
    show "includesStr msg (orElse (frag_message f) MSG_UNKNOWN)"
      using includesStr_append[of "MSG_LINE @ numToString (int (length pre) + 1) @ MSG_LINE_FAILED
          @ MSG_API_ERROR" "orElse (frag_message f) MSG_UNKNOWN"
          "MSG_CODE @ numToString (frag_code f) @ asc '')''"]
      by (simp add: assms(10))
    show "includesStr msg (numToString (frag_code f))"
      using includesStr_append[of "MSG_LINE @ numToString (int (length pre) + 1) @ MSG_LINE_FAILED
          @ MSG_API_ERROR @ orElse (frag_message f) MSG_UNKNOWN @ MSG_CODE"
          "numToString (frag_code f)" "asc '')''"]
      by (simp add: assms(10))
    assume "\<forall>p \<in> set errorTriggers. \<not> includesStr msg p"
    moreover have "msg \<noteq> []"
      unfolding assms(10) by (rule MSG_LINE_nonempty)
    ultimately have "handleApiError (Error msg) = msg"
      by (intro handleApiError_plain)
    with 1 show "synthesize cfg parse now net request = (Resolves (failed msg), fx)" by simp
  }
  {
    assume "0 \<le> frag_code f"
    then show "collect parse 0 (bodyLines body) [] None =
              collect parse (Suc (length pre)) post (audioChunks (frs @ [f])) (Some f)"
      using collect_passed[OF assms(7,8,9), of post] by (simp add: assms(6))
  }
  assume a: "0 \<le> frag_code f \<and> frag_code f \<noteq> 0 \<and> frag_code f \<noteq> 20000000 \<and> post = []
            \<and> (\<exists>r \<in> set (frs @ [f]). hasAudio r)"
  then have au: "\<exists>r \<in> set (frs @ [f]). hasAudio r" by simp
  have "collect parse 0 (bodyLines body) [] None = Inr (audioChunks (frs @ [f]), Some f)"
    using collect_passed[OF assms(7,8,9), of post] a by (simp add: assms(6))
  then have "assemble parse now body = Inl (Error final)"
    using a audioChunks_nonempty[OF au] by (simp add: asm assms(11))
  then show 2: "synthesize cfg parse now net request
              = (Resolves (failed (handleApiError (Error final))), fx)"
    by (simp add: syn)
  assume "\<forall>p \<in> set errorTriggers. \<not> includesStr final p"
  moreover have "final \<noteq> []"
    unfolding assms(11) by (intro orElse_nonempty MSG_SYNTHESIS_FAILED_nonempty)
  ultimately have "handleApiError (Error final) = final"
    by (intro handleApiError_plain)
  with 2 show "synthesize cfg parse now net request = (Resolves (failed final), fx)" by simp
qed

subsection \<open>Validation\<close>

lemma dropWhile_all: "(\<forall>x \<in> set (dropWhile P xs). P x) \<longleftrightarrow> (\<forall>x \<in> set xs. P x)"
  by (induction xs) auto

lemma trim_eq_Nil: "trim s = [] \<longleftrightarrow> (\<forall>c \<in> set s. isWhiteSpace c)"
  by (simp add: trim_def dropWhile_eq_Nil_conv dropWhile_all)

text \<open>
  C6 (as amended). With app id and access key configured, a request whose text is blank
  gets the empty-text failure, and a request whose text is not blank and longer than 1000
  code units gets the too-long failure; in both cases no fetch and no delay happens.
\<close>

theorem input_validation:
  assumes "validateConfig cfg"
  shows "(requestText request = [] \<or> trim (requestText request) = [] \<longrightarrow>
            synthesize cfg parse now net request = (Resolves (failed ERR_EMPTY_TEXT), []))
       \<and> (trim (requestText request) \<noteq> [] \<and> 1000 < length (requestText request) \<longrightarrow>
            synthesize cfg parse now net request = (Resolves (failed ERR_TOO_LONG), []))"
  using assms by (auto simp: synthesize_def)

text \<open>
  C9. When the app id or the access key is absent, every request gets the configuration
  failure, whatever its text, and no fetch happens.
\<close>

theorem config_check_first:
  assumes "appId cfg = [] \<or> accessKey cfg = []"
  shows "synthesize cfg parse now net request = (Resolves (failed ERR_CONFIG), [])"
  using assms by (auto simp: synthesize_def validateConfig_def)

lemma synthesize_pending:
  "fst (synthesize cfg parse now net request) = Pending \<longleftrightarrow>
     validateConfig cfg \<and> validRequest request \<and>
     (\<exists>resp. fst (requestWithRetry net 1) = Inr resp \<and> bodyText resp = BodyNeverSettles)"
proof (cases "validateConfig cfg \<and> validRequest request")
  case False
  then show ?thesis by (auto simp: synthesize_def validRequest_def)
next
  case True
  obtain res fx where r: "requestWithRetry net 1 = (res, fx)"
    by (cases "requestWithRetry net 1")
  show ?thesis
  proof (cases res)
    case (Inl e)
    with True r show ?thesis
      by (simp add: synthesize_valid synthesizeTry_transport_error)
  next
    case (Inr resp)
    with True r requestWithRetry_ok[of net 1 resp fx] show ?thesis
      by (cases "bodyText resp")
         (auto simp: synthesize_valid synthesizeTry_def split: sum.splits)
  qed
qed

subsection \<open>Evaluation of the examples\<close>

lemmas string_eval = asc_def trim_def isWhiteSpace_def startsWith_def toLowerCase_def

lemmas wire_eval = expect_def jsonSpace_def wireInt_def isDigit_def digitsValue_def wireValue_def
  wireField_def wireText_def wireParse_def syntaxError_def Let_def

lemmas line_defs = line_AA_def line_BB_def line_done_def line_busy_def line_warn_def
  line_bad_def line_note_def line_e500_def line_mute_def

lemma trim_lines:
  "trim line_AA = line_AA" "trim line_BB = line_BB" "trim line_done = line_done"
  "trim line_busy = line_busy" "trim line_warn = line_warn" "trim line_bad = line_bad"
  "trim line_note = line_note" "trim line_e500 = line_e500" "trim line_mute = line_mute"
  by (simp_all add: line_defs string_eval)

lemma parse_AA:
  "wireParse line_AA = Inr \<lparr>frag_code = 0, frag_message = Some (asc ''ok''), frag_data = Some (asc ''AA'')\<rparr>"
  by (simp add: line_AA_def string_eval wire_eval)

lemma parse_BB:
  "wireParse line_BB = Inr \<lparr>frag_code = 0, frag_message = Some (asc ''ok''), frag_data = Some (asc ''BB'')\<rparr>"
  by (simp add: line_BB_def string_eval wire_eval)

lemma parse_done:
  "wireParse line_done = Inr \<lparr>frag_code = 0, frag_message = Some (asc ''done''), frag_data = Some []\<rparr>"
  by (simp add: line_done_def string_eval wire_eval)

lemma parse_busy:
  "wireParse line_busy = Inr \<lparr>frag_code = 10, frag_message = Some (asc ''busy''), frag_data = Some (asc ''BB'')\<rparr>"
  by (simp add: line_busy_def string_eval wire_eval)

lemma parse_warn:
  "wireParse line_warn = Inr \<lparr>frag_code = 3, frag_message = Some (asc ''warn''), frag_data = None\<rparr>"
  by (simp add: line_warn_def string_eval wire_eval)

lemma parse_bad:
  "wireParse line_bad = Inr \<lparr>frag_code = - 5, frag_message = Some (asc ''bad''), frag_data = None\<rparr>"
  by (simp add: line_bad_def string_eval wire_eval)

lemma parse_note:
  "wireParse line_note = Inr \<lparr>frag_code = 7, frag_message = Some (asc ''note''), frag_data = Some []\<rparr>"
  by (simp add: line_note_def string_eval wire_eval)

lemma parse_e500:
  "wireParse line_e500 = Inr \<lparr>frag_code = 7, frag_message = Some (asc ''e500''), frag_data = Some []\<rparr>"
  by (simp add: line_e500_def string_eval wire_eval)

lemma parse_mute:
  "wireParse line_mute = Inr \<lparr>frag_code = 7, frag_message = None, frag_data = Some []\<rparr>"
  by (simp add: line_mute_def string_eval wire_eval)

lemmas parse_lines = parse_AA parse_BB parse_done parse_busy parse_warn parse_bad parse_note
  parse_e500 parse_mute

lemma lines_three: "bodyLines threeLineBody = [line_AA, line_BB, line_done]"
  by (simp add: bodyLines_def threeLineBody_def line_defs string_eval)

lemma lines_two:
  "bodyLines (twoLines line_AA line_busy) = [line_AA, line_busy]"
  "bodyLines (twoLines line_AA line_warn) = [line_AA, line_warn]"
  "bodyLines (twoLines line_bad line_AA) = [line_bad, line_AA]"
  "bodyLines (twoLines line_AA line_note) = [line_AA, line_note]"
  "bodyLines (twoLines line_AA line_done) = [line_AA, line_done]"
  "bodyLines (twoLines line_AA line_e500) = [line_AA, line_e500]"
  "bodyLines (twoLines line_AA line_mute) = [line_AA, line_mute]"
  by (simp_all add: bodyLines_def twoLines_def line_defs string_eval)

lemma trim_bodies:
  "trim threeLineBody \<noteq> []"
  "trim (twoLines line_AA line_busy) \<noteq> []"
  "trim (twoLines line_AA line_warn) \<noteq> []"
  "trim (twoLines line_bad line_AA) \<noteq> []"
  "trim (twoLines line_AA line_note) \<noteq> []"
  "trim (twoLines line_AA line_done) \<noteq> []"
  "trim (twoLines line_AA line_e500) \<noteq> []"
  "trim (twoLines line_AA line_mute) \<noteq> []"
  by (simp_all add: trim_eq_Nil threeLineBody_def twoLines_def line_defs asc_def isWhiteSpace_def)

lemma example_valid: "validateConfig exampleConfig" "validRequest exampleRequest"
  by (simp_all add: validateConfig_def validRequest_def exampleConfig_def exampleRequest_def
      trim_eq_Nil asc_def isWhiteSpace_def)

lemma serving_once: "requestWithRetry (serving body) 1 = (Inr (okResponse body), [Fetch 1])"
  by (subst requestWithRetry.simps) (simp add: serving_def attempt_def okResponse_def)

lemma body_okResponse: "bodyText (okResponse body) = BodyText body"
  by (simp add: okResponse_def)

text \<open>
  The three-line body of the specification yields success with audio \<open>AABB\<close>.
\<close>

theorem multi_fragment_concatenation_witness:
  "synthesize exampleConfig wireParse 7 (serving threeLineBody) exampleRequest
     = (Resolves (succeeded (asc ''AABB'') 7), [Fetch 1])"
proof -
  let ?frs = "[\<lparr>frag_code = 0, frag_message = Some (asc ''ok''), frag_data = Some (asc ''AA'')\<rparr>,
               \<lparr>frag_code = 0, frag_message = Some (asc ''ok''), frag_data = Some (asc ''BB'')\<rparr>,
               \<lparr>frag_code = 0, frag_message = Some (asc ''done''), frag_data = Some []\<rparr>]"
  have p: "map (\<lambda>l. wireParse (trim l)) (bodyLines threeLineBody) = map Inr ?frs"
    by (simp add: lines_three trim_lines parse_lines)
  have c: "\<forall>r \<in> set ?frs. 0 \<le> frag_code r" by simp
  have a: "\<exists>r \<in> set ?frs. hasAudio r" by (simp add: hasAudio_def asc_def)
  have l: "frag_code (last ?frs) = 0 \<or> frag_code (last ?frs) = 20000000" by simp
  show ?thesis
    using multi_fragment_concatenation[OF example_valid serving_once body_okResponse
        trim_bodies(1) p c a l, of 7]
    by (simp add: audioChunks_def hasAudio_def asc_def)
qed

text \<open>
  The claim C2 as stated fails when the last fragment has a non-negative code that is not
  a success code: both lines parse, both codes are non-negative, both carry audio, and the
  call fails with the last fragment's message.
\<close>

theorem multi_fragment_last_status_counterexample:
  "wireParse line_AA = Inr \<lparr>frag_code = 0, frag_message = Some (asc ''ok''), frag_data = Some (asc ''AA'')\<rparr>
   \<and> wireParse line_busy = Inr \<lparr>frag_code = 10, frag_message = Some (asc ''busy''), frag_data = Some (asc ''BB'')\<rparr>
   \<and> synthesize exampleConfig wireParse 7 (serving (twoLines line_AA line_busy)) exampleRequest
       = (Resolves (failed (asc ''busy'')), [Fetch 1])"
proof -
  have "assemble wireParse 7 (twoLines line_AA line_busy) = Inl (Error (asc ''busy''))"
    by (simp add: assemble_lines trim_bodies lines_two trim_lines parse_lines parseLine_def
        hasAudio_def asc_def)
  moreover have "handleApiError (Error (asc ''busy'')) = asc ''busy''"
    by (simp add: handleApiError_def Error_def string_eval)
  ultimately show ?thesis
    by (simp add: synthesize_body[OF example_valid serving_once body_okResponse] parse_lines)
qed




lemmas words_eval = indicatesConfigurationError_def sameLetter_def Error_def asc_def


lemma words_fail:
  "\<not> indicatesConfigurationError (message (Error (asc ''HTTP 500: Internal Server Error'')))"
  "\<not> indicatesConfigurationError (asc ''Failed to fetch'')"
  "\<not> indicatesConfigurationError (asc ''The user aborted a request.'')"
  by (simp_all add: words_eval)




lemma parsed_pre_AA:
  "map (\<lambda>l. wireParse (trim l)) [line_AA]
     = map Inr [\<lparr>frag_code = 0, frag_message = Some (asc ''ok''), frag_data = Some (asc ''AA'')\<rparr>]"
  by (simp add: trim_lines parse_lines)

text \<open>
  A negative code in the first line; after audio, a last line with code 3 and message
  \<open>warn\<close>, one with code 7 and message \<open>e500\<close> (which selects the server-error text), and
  one with code 7 and no message.
\<close>

theorem upstream_code_handling_witness:
  "synthesize exampleConfig wireParse 7 (serving (twoLines line_bad line_AA)) exampleRequest
     = (Resolves (failed (MSG_LINE @ asc ''1'' @ MSG_LINE_FAILED @ MSG_API_ERROR @ asc ''bad''
                          @ MSG_CODE @ asc ''-5)'')), [Fetch 1])
   \<and> synthesize exampleConfig wireParse 7 (serving (twoLines line_AA line_warn)) exampleRequest
     = (Resolves (failed (asc ''warn'')), [Fetch 1])
   \<and> synthesize exampleConfig wireParse 7 (serving (twoLines line_AA line_e500)) exampleRequest
     = (Resolves (failed MSG_SERVER), [Fetch 1])
   \<and> synthesize exampleConfig wireParse 7 (serving (twoLines line_AA line_mute)) exampleRequest
     = (Resolves (failed MSG_SYNTHESIS_FAILED), [Fetch 1])"
proof -
  let ?AA = "\<lparr>frag_code = 0, frag_message = Some (asc ''ok''), frag_data = Some (asc ''AA'')\<rparr>"
  let ?bad = "\<lparr>frag_code = - 5, frag_message = Some (asc ''bad''), frag_data = None\<rparr>"
  let ?warn = "\<lparr>frag_code = 3, frag_message = Some (asc ''warn''), frag_data = None\<rparr>"
  let ?e500 = "\<lparr>frag_code = 7, frag_message = Some (asc ''e500''), frag_data = Some []\<rparr>"
  let ?mute = "\<lparr>frag_code = 7, frag_message = None, frag_data = Some []\<rparr>"
  let ?msg = "MSG_LINE @ numToString (int (length ([]::jsstring list)) + 1) @ MSG_LINE_FAILED
                @ MSG_API_ERROR @ orElse (frag_message ?bad) MSG_UNKNOWN @ MSG_CODE
                @ numToString (frag_code ?bad) @ asc '')''"
  have l1: "bodyLines (twoLines line_bad line_AA) = [] @ line_bad # [line_AA]"
    by (simp add: lines_two)
  have l2: "bodyLines (twoLines line_AA line_warn) = [line_AA] @ line_warn # []"
    "bodyLines (twoLines line_AA line_e500) = [line_AA] @ line_e500 # []"
    "bodyLines (twoLines line_AA line_mute) = [line_AA] @ line_mute # []"
    by (simp_all add: lines_two)
  have e: "map (\<lambda>l. wireParse (trim l)) [] = map Inr []" by simp
  have c0: "\<forall>r \<in> set ([]::fragment list). 0 \<le> frag_code r" by simp
  have c1: "\<forall>r \<in> set [?AA]. 0 \<le> frag_code r" by simp
  have pb: "wireParse (trim line_bad) = Inr ?bad" by (simp add: trim_lines parse_lines)
  have pw: "wireParse (trim line_warn) = Inr ?warn" by (simp add: trim_lines parse_lines)
  have pe: "wireParse (trim line_e500) = Inr ?e500" by (simp add: trim_lines parse_lines)
  have pm: "wireParse (trim line_mute) = Inr ?mute" by (simp add: trim_lines parse_lines)
  note neg = upstream_code_handling[OF example_valid serving_once body_okResponse
      trim_bodies(4) l1 e c0 pb refl refl, of 7]
  note pos = upstream_code_handling[OF example_valid serving_once body_okResponse
      trim_bodies(3) l2(1) parsed_pre_AA c1 pw refl refl, of 7]
  note p500 = upstream_code_handling[OF example_valid serving_once body_okResponse
      trim_bodies(7) l2(2) parsed_pre_AA c1 pe refl refl, of 7]
  note pmute = upstream_code_handling[OF example_valid serving_once body_okResponse
      trim_bodies(8) l2(3) parsed_pre_AA c1 pm refl refl, of 7]
  have m: "?msg = MSG_LINE @ asc ''1'' @ MSG_LINE_FAILED @ MSG_API_ERROR @ asc ''bad''
                          @ MSG_CODE @ asc ''-5)''"
    by (simp add: numToString_def digits.simps asc_def)
  have t: "\<forall>p \<in> set errorTriggers. \<not> includesStr ?msg p"
    unfolding m
    by (simp add: errorTriggers_def MSG_LINE_def MSG_LINE_FAILED_def MSG_API_ERROR_def
        MSG_CODE_def string_eval)
  have tw: "\<forall>p \<in> set errorTriggers. \<not> includesStr (orElse (frag_message ?warn) MSG_SYNTHESIS_FAILED) p"
    by (simp add: errorTriggers_def string_eval)
  have tm: "\<forall>p \<in> set errorTriggers. \<not> includesStr (orElse (frag_message ?mute) MSG_SYNTHESIS_FAILED) p"
    by (simp add: errorTriggers_def MSG_SYNTHESIS_FAILED_def string_eval)
  have h500: "handleApiError (Error (orElse (frag_message ?e500) MSG_SYNTHESIS_FAILED)) = MSG_SERVER"
    by (simp add: handleApiError_def Error_def string_eval)
  have "synthesize exampleConfig wireParse 7 (serving (twoLines line_bad line_AA)) exampleRequest
     = (Resolves (failed ?msg), [Fetch 1])"
  proof -
    have "frag_code ?bad < 0" by simp
    with neg t show ?thesis by blast
  qed
  moreover have "synthesize exampleConfig wireParse 7 (serving (twoLines line_AA line_warn)) exampleRequest
     = (Resolves (failed (asc ''warn'')), [Fetch 1])"
  proof -
    have "0 \<le> frag_code ?warn \<and> frag_code ?warn \<noteq> 0 \<and> frag_code ?warn \<noteq> 20000000
        \<and> ([]::jsstring list) = [] \<and> (\<exists>r \<in> set ([?AA] @ [?warn]). hasAudio r)"
      by (simp add: hasAudio_def asc_def)
    with pos tw have "synthesize exampleConfig wireParse 7 (serving (twoLines line_AA line_warn))
        exampleRequest = (Resolves (failed (orElse (frag_message ?warn) MSG_SYNTHESIS_FAILED)), [Fetch 1])"
      by blast
    then show ?thesis by (simp add: asc_def)
  qed
  moreover have "synthesize exampleConfig wireParse 7 (serving (twoLines line_AA line_e500)) exampleRequest
     = (Resolves (failed MSG_SERVER), [Fetch 1])"
  proof -
    have "0 \<le> frag_code ?e500 \<and> frag_code ?e500 \<noteq> 0 \<and> frag_code ?e500 \<noteq> 20000000
        \<and> ([]::jsstring list) = [] \<and> (\<exists>r \<in> set ([?AA] @ [?e500]). hasAudio r)"
      by (simp add: hasAudio_def asc_def)
    with p500 have "synthesize exampleConfig wireParse 7 (serving (twoLines line_AA line_e500))
        exampleRequest = (Resolves (failed (handleApiError
           (Error (orElse (frag_message ?e500) MSG_SYNTHESIS_FAILED)))), [Fetch 1])"
      by blast
    then show ?thesis by (simp only: h500)
  qed
  moreover have "synthesize exampleConfig wireParse 7 (serving (twoLines line_AA line_mute)) exampleRequest
     = (Resolves (failed MSG_SYNTHESIS_FAILED), [Fetch 1])"
  proof -
    have "0 \<le> frag_code ?mute \<and> frag_code ?mute \<noteq> 0 \<and> frag_code ?mute \<noteq> 20000000
        \<and> ([]::jsstring list) = [] \<and> (\<exists>r \<in> set ([?AA] @ [?mute]). hasAudio r)"
      by (simp add: hasAudio_def asc_def)
    with pmute tm have "synthesize exampleConfig wireParse 7 (serving (twoLines line_AA line_mute))
        exampleRequest = (Resolves (failed (orElse (frag_message ?mute) MSG_SYNTHESIS_FAILED)), [Fetch 1])"
      by blast
    then show ?thesis by simp
  qed
  ultimately show ?thesis by (simp only: m)
qed

text \<open>
  The claim C5 as stated fails for a non-negative code in the last fragment: with code 7
  the call fails, and the same body with code 0 in that fragment succeeds.
\<close>

theorem informational_code_counterexample:
  "wireParse line_note
     = Inr \<lparr>frag_code = 7, frag_message = Some (asc ''note''), frag_data = Some []\<rparr>
   \<and> synthesize exampleConfig wireParse 7 (serving (twoLines line_AA line_note)) exampleRequest
       = (Resolves (failed (asc ''note'')), [Fetch 1])
   \<and> synthesize exampleConfig wireParse 7 (serving (twoLines line_AA line_done)) exampleRequest
       = (Resolves (succeeded (asc ''AA'') 7), [Fetch 1])"
proof -
  have "assemble wireParse 7 (twoLines line_AA line_note) = Inl (Error (asc ''note''))"
    by (simp add: assemble_lines trim_bodies lines_two trim_lines parse_lines parseLine_def
        hasAudio_def asc_def)
  moreover have "handleApiError (Error (asc ''note'')) = asc ''note''"
    by (simp add: handleApiError_def Error_def string_eval)
  moreover have "assemble wireParse 7 (twoLines line_AA line_done) = Inr (succeeded (asc ''AA'') 7)"
    by (simp add: assemble_lines trim_bodies lines_two trim_lines parse_lines parseLine_def
        hasAudio_def asc_def)
  ultimately show ?thesis
    by (simp add: synthesize_body[OF example_valid serving_once body_okResponse] parse_lines)
qed

lemma long_text: "trim (replicate 1001 97) \<noteq> []" "trim (replicate 1001 32) = []"
  by (simp_all add: trim_eq_Nil isWhiteSpace_def)

text \<open>
  The empty text, a text of two spaces and a text of 1001 letters.
\<close>

theorem input_validation_witness:
  "synthesize exampleConfig wireParse 7 offline (textOf []) = (Resolves (failed ERR_EMPTY_TEXT), [])
   \<and> synthesize exampleConfig wireParse 7 offline (textOf (asc ''  ''))
       = (Resolves (failed ERR_EMPTY_TEXT), [])
   \<and> length (replicate 1001 (97::nat)) = 1001
   \<and> synthesize exampleConfig wireParse 7 offline (textOf (replicate 1001 97))
       = (Resolves (failed ERR_TOO_LONG), [])"
  using input_validation[OF example_valid(1), of "textOf []" wireParse 7 offline]
    input_validation[OF example_valid(1), of "textOf (asc ''  '')" wireParse 7 offline]
    input_validation[OF example_valid(1), of "textOf (replicate 1001 97)" wireParse 7 offline]
    long_text
  by (simp add: textOf_def trim_eq_Nil asc_def isWhiteSpace_def)

text \<open>
  The claim C6 as stated fails twice: without an access key a blank text gets the
  configuration failure, and a text of 1001 spaces is longer than 1000 and gets the
  empty-text failure.
\<close>

theorem input_validation_counterexample:
  "synthesize missingKey wireParse 7 offline (textOf []) = (Resolves (failed ERR_CONFIG), [])
   \<and> ERR_CONFIG \<noteq> ERR_EMPTY_TEXT
   \<and> length (replicate 1001 (32::nat)) = 1001
   \<and> synthesize exampleConfig wireParse 7 offline (textOf (replicate 1001 32))
       = (Resolves (failed ERR_EMPTY_TEXT), [])
   \<and> ERR_EMPTY_TEXT \<noteq> ERR_TOO_LONG"
  using long_text example_valid(1)
  by (simp add: synthesize_def validateConfig_def missingKey_def textOf_def
      ERR_CONFIG_def ERR_EMPTY_TEXT_def ERR_TOO_LONG_def asc_def)

text \<open>
  Without an access key: a blank text, a text of 1001 letters and a valid request.
\<close>

theorem config_check_first_witness:
  "accessKey missingKey = []
   \<and> synthesize missingKey wireParse 7 offline (textOf []) = (Resolves (failed ERR_CONFIG), [])
   \<and> synthesize missingKey wireParse 7 offline (textOf (replicate 1001 97))
       = (Resolves (failed ERR_CONFIG), [])
   \<and> synthesize missingKey wireParse 7 (serving threeLineBody) exampleRequest
       = (Resolves (failed ERR_CONFIG), [])"
  using config_check_first[of missingKey wireParse 7 offline "textOf []"]
    config_check_first[of missingKey wireParse 7 offline "textOf (replicate 1001 97)"]
    config_check_first[of missingKey wireParse 7 "serving threeLineBody" exampleRequest]
  by (simp add: missingKey_def)

lemma timingOut_retry:
  "requestWithRetry timingOut 1
     = (Inl \<lparr>name = asc ''AbortError'', message = asc ''The user aborted a request.''\<rparr>,
        [Fetch 1, Delay 1000, Fetch 2, Delay 1000, Fetch 3])"
proof -
  let ?e = "\<lparr>name = asc ''AbortError'', message = asc ''The user aborted a request.''\<rparr>"
  have at: "\<And>n. attempt (timingOut n) = Inl ?e"
    by (simp add: attempt_def timingOut_def)
  have tr: "\<not> isConfigurationError ?e"
    using words_fail(3) by (simp add: isConfigurationError_words)
  have 3: "requestWithRetry timingOut 3 = (Inl ?e, [Fetch 3])"
    by (subst requestWithRetry.simps) (simp add: at retryCount_def)
  then have "requestWithRetry timingOut (2 + 1) = (Inl ?e, [Fetch 3])"
    by simp
  then have "requestWithRetry timingOut 2 = (Inl ?e, [Fetch 2, Delay 1000, Fetch 3])"
    using tr by (subst requestWithRetry.simps) (simp add: at retryCount_def retryDelay_def)
  then have "requestWithRetry timingOut (1 + 1) = (Inl ?e, [Fetch 2, Delay 1000, Fetch 3])"
    by (simp only: one_add_one)
  then show ?thesis
    using tr by (subst requestWithRetry.simps) (simp add: at retryCount_def retryDelay_def)
qed

lemma stalling_once:
  "requestWithRetry stalling 1
     = (Inr \<lparr>ok = True, status = 200, statusText = asc ''OK'', bodyText = BodyNeverSettles\<rparr>, [Fetch 1])"
  by (subst requestWithRetry.simps) (simp add: stalling_def attempt_def)

text \<open>
  C7. The operation is to resolve for every outcome. It does not when the reading of the
  body never settles: the response has arrived, so the timer is cleared, and \<open>synthesize\<close>
  stays suspended at \<open>response.text()\<close>; its promise is pending for ever. A fetch that
  does not answer is aborted by the timer: three attempts, then the timeout failure.
\<close>

theorem stalled_body_never_resolves:
  "synthesize exampleConfig wireParse 7 stalling exampleRequest = (Pending, [Fetch 1])
   \<and> synthesize exampleConfig wireParse 7 timingOut exampleRequest
       = (Resolves (failed MSG_TIMEOUT), [Fetch 1, Delay 1000, Fetch 2, Delay 1000, Fetch 3])"
proof -
  have "synthesizeTry wireParse 7 stalling exampleRequest = (None, [Fetch 1])"
    by (rule synthesizeTry_stalled[OF stalling_once]) simp
  moreover have "synthesizeTry wireParse 7 timingOut exampleRequest
     = (Some (Inl \<lparr>name = asc ''AbortError'', message = asc ''The user aborted a request.''\<rparr>),
        [Fetch 1, Delay 1000, Fetch 2, Delay 1000, Fetch 3])"
    by (rule synthesizeTry_transport_error[OF timingOut_retry])
  moreover have "handleApiError
      \<lparr>name = asc ''AbortError'', message = asc ''The user aborted a request.''\<rparr> = MSG_TIMEOUT"
    by (simp add: handleApiError_def)
  ultimately show ?thesis
    using example_valid by (simp add: synthesize_valid)
qed

end
